theory Spec2Isabelle
  imports Complex_Main "HOL-Library.AList" "HOL-Library.Log_Nat"
begin

section \<open>The idempotency-key store of \<open>idempotency_key/storage.py\<close>\<close>

text \<open>
  The module defines a stored record (\<open>CachedHttpResponse\<close>) and two storage backends,
  \<open>MemoryKeyStorage\<close> and \<open>CacheKeyStorage\<close>. The embedding follows the source function
  by function.

  \<^item> A Python dictionary is an association list: \<open>AList.update\<close> replaces the value of a
    key in place or appends a new pair at the end, and \<open>AList.delete\<close> removes a key,
    as \<open>d[k] = v\<close> and \<open>del d[k]\<close> do on an insertion-ordered \<open>dict\<close>.
  \<^item> \<open>time.time()\<close> is read once by each operation that uses it; the value read is the
    parameter \<open>now\<close> of the operation. A time stamp is the real number that the float
    denotes. The sum \<open>mtime + self.ttl\<close> is computed as Python computes it, in IEEE
    double precision: the integer is converted to a float and the sum is rounded.
  \<^item> An exception is the \<open>Inl\<close> branch of the result; the state an operation leaves
    behind is returned in the \<open>Inr\<close> branch.
\<close>

subsection \<open>Values and errors\<close>

text \<open>
  The \<open>response\<close> argument has the Python type \<open>object\<close>. The code distinguishes three
  kinds of value: \<open>None\<close> (the reservation sentinel), instances of \<open>HttpResponse\<close>
  (status code and body), and every other object.
\<close>

datatype pyobject = PyNone | HttpResponse int string | OtherObject string

datatype error =
  ValueError | TypeError | AttributeError | OverflowError | InvalidCacheBackendError

fun isinstance_HttpResponse :: "pyobject \<Rightarrow> bool" where
  "isinstance_HttpResponse (HttpResponse status body) = True"
| "isinstance_HttpResponse PyNone = False"
| "isinstance_HttpResponse (OtherObject descr) = False"

subsection \<open>Python floats\<close>

text \<open>
  A Python \<open>float\<close> is an IEEE 754 double. A finite double is the real number it
  denotes; an addition can also give an infinity. \<open>round_double\<close> rounds a real number
  to the nearest double, ties to the even significand: the magnitude is scaled by the
  unit in the last place of its binade (53 significant bits, the exponent not below that
  of the subnormal numbers), rounded to the nearest integer, ties to even, and scaled
  back; a result of \<open>2 ^ 1024\<close> or more overflows.
\<close>

datatype pyfloat = Finite real | PlusInfinity | MinusInfinity

definition pow2 :: "int \<Rightarrow> real" where
  "pow2 e = (if 0 \<le> e then 2 ^ nat e else 1 / 2 ^ nat (- e))"

definition round_half_even :: "real \<Rightarrow> int" where
  "round_half_even y =
     (let f = \<lfloor>y\<rfloor>; d = y - of_int f
      in if d < 1 / 2 then f
         else if 1 / 2 < d then f + 1
         else if even f then f else f + 1)"

text \<open>The exponent \<open>e\<close> with \<open>2 ^ e \<le> a < 2 ^ (e + 1)\<close>, for a positive \<open>a\<close>.\<close>

definition binade :: "real \<Rightarrow> int" where
  "binade a = (if 1 \<le> a then bitlen \<lfloor>a\<rfloor> - 1 else - bitlen (\<lceil>1 / a\<rceil> - 1))"

text \<open>
  The unit in the last place of the doubles around a positive \<open>a\<close>, and \<open>a\<close> rounded to
  a multiple of it.
\<close>

definition ulp :: "real \<Rightarrow> real" where
  "ulp a = pow2 (max (binade a) (- 1022) - 52)"

definition round_magnitude :: "real \<Rightarrow> real" where
  "round_magnitude a = of_int (round_half_even (a / ulp a)) * ulp a"

definition round_double :: "real \<Rightarrow> pyfloat" where
  "round_double x =
     (if x = 0 then Finite 0
      else let r = round_magnitude \<bar>x\<bar>
           in if pow2 1024 \<le> r
              then (if 0 < x then PlusInfinity else MinusInfinity)
              else Finite (if 0 < x then r else - r))"

text \<open>
  \<open>float + int\<close> converts the integer first, which raises \<open>OverflowError\<close> for an
  integer too large for a float; the addition itself never raises. \<open>float < float\<close>
  compares the values exactly.
\<close>

definition float_of_int :: "int \<Rightarrow> error + real" where
  "float_of_int n =
     (case round_double (of_int n) of
        Finite r \<Rightarrow> Inr r
      | PlusInfinity \<Rightarrow> Inl OverflowError
      | MinusInfinity \<Rightarrow> Inl OverflowError)"

definition float_add :: "real \<Rightarrow> real \<Rightarrow> pyfloat" where
  "float_add x y = round_double (x + y)"

fun float_less :: "pyfloat \<Rightarrow> real \<Rightarrow> bool" where
  "float_less (Finite r) t = (r < t)"
| "float_less PlusInfinity t = False"
| "float_less MinusInfinity t = True"

subsection \<open>\<open>CachedHttpResponse\<close>\<close>

record CachedHttpResponse =
  response :: pyobject
  mtime :: real

text \<open>\<open>__init__\<close>: stores the value unchecked and stamps it with the current time.\<close>

definition CachedHttpResponse_init :: "real \<Rightarrow> pyobject \<Rightarrow> CachedHttpResponse" where
  "CachedHttpResponse_init now v = \<lparr>response = v, mtime = now\<rparr>"

text \<open>The property \<open>response_and_mtime\<close>: its getter and its setter.\<close>

definition response_and_mtime :: "CachedHttpResponse \<Rightarrow> pyobject \<times> real" where
  "response_and_mtime c = (response c, mtime c)"

definition response_and_mtime_setter ::
  "real \<Rightarrow> CachedHttpResponse \<Rightarrow> pyobject \<Rightarrow> error + CachedHttpResponse" where
  "response_and_mtime_setter now c v =
     (if \<not> isinstance_HttpResponse v then Inl ValueError
      else Inr (c\<lparr>response := v, mtime := now\<rparr>))"

text \<open>
  The condition \<open>response is None and mtime + self.ttl < time.time()\<close> of both
  \<open>retrieve_data\<close> methods. \<open>and\<close> evaluates its right operand, and so the sum, only
  when the payload is the sentinel.
\<close>

definition reservation_expired :: "int \<Rightarrow> real \<Rightarrow> pyobject \<Rightarrow> real \<Rightarrow> error + bool" where
  "reservation_expired T now resp mt =
     (if resp \<noteq> PyNone then Inr False
      else case float_of_int T of
             Inl e \<Rightarrow> Inl e
           | Inr tf \<Rightarrow> Inr (float_less (float_add mt tf) now))"

subsection \<open>\<open>MemoryKeyStorage\<close>\<close>

text \<open>
  A namespace table is a \<open>dict\<close> from encoded key to record. The attribute
  \<open>idempotency_key_cache_data\<close> is a \<open>defaultdict(dict)\<close>; its values are Python
  objects, so a value is either \<open>None\<close> or a table. Reading a missing key calls the
  default factory, stores the fresh empty table under the key and returns it.
\<close>

type_synonym table = "(string \<times> CachedHttpResponse) list"

datatype pyvalue = NoneValue | DictValue table

type_synonym defaultdict = "(string \<times> pyvalue) list"

record MemoryKeyStorage =
  ttl :: int
  idempotency_key_cache_data :: defaultdict

definition MemoryKeyStorage_init :: "int \<Rightarrow> MemoryKeyStorage" where
  "MemoryKeyStorage_init t = \<lparr>ttl = t, idempotency_key_cache_data = []\<rparr>"

definition defaultdict_getitem :: "defaultdict \<Rightarrow> string \<Rightarrow> defaultdict \<times> pyvalue" where
  "defaultdict_getitem d k =
     (case map_of d k of
        Some v \<Rightarrow> (d, v)
      | None \<Rightarrow> (AList.update k (DictValue []) d, DictValue []))"

text \<open>
  \<open>store_data\<close>: builds the record, looks the namespace up (creating it) and assigns the
  record under the key. Subscript assignment on \<open>None\<close> raises \<open>TypeError\<close>.
\<close>

definition Memory_store_data ::
  "MemoryKeyStorage \<Rightarrow> real \<Rightarrow> string \<Rightarrow> string \<Rightarrow> pyobject \<Rightarrow> error + MemoryKeyStorage" where
  "Memory_store_data s now cache_name encoded_key resp =
     (let cached_response = CachedHttpResponse_init now resp;
          (d, v) = defaultdict_getitem (idempotency_key_cache_data s) cache_name
      in case v of
           NoneValue \<Rightarrow> Inl TypeError
         | DictValue t \<Rightarrow>
             Inr (s\<lparr>idempotency_key_cache_data :=
                      AList.update cache_name
                        (DictValue (AList.update encoded_key cached_response t)) d\<rparr>))"

text \<open>
  \<open>retrieve_data\<close>: the table is shared with the store, so \<open>del the_cache[encoded_key]\<close>
  changes the store's state; the model writes the shrunk table back under the namespace.
\<close>

definition Memory_retrieve_data ::
  "MemoryKeyStorage \<Rightarrow> real \<Rightarrow> string \<Rightarrow> string
     \<Rightarrow> error + (MemoryKeyStorage \<times> (bool \<times> pyobject))" where
  "Memory_retrieve_data s now cache_name encoded_key =
     (let (d, the_cache) = defaultdict_getitem (idempotency_key_cache_data s) cache_name;
          s1 = s\<lparr>idempotency_key_cache_data := d\<rparr>
      in case the_cache of
           NoneValue \<Rightarrow> Inr (s1, (False, PyNone))
         | DictValue t \<Rightarrow>
             (case map_of t encoded_key of
                None \<Rightarrow> Inr (s1, (False, PyNone))
              | Some c \<Rightarrow>
                  (let (resp, mt) = response_and_mtime c
                   in case reservation_expired (ttl s) now resp mt of
                        Inl e \<Rightarrow> Inl e
                      | Inr True \<Rightarrow>
                          Inr (s\<lparr>idempotency_key_cache_data :=
                                   AList.update cache_name
                                     (DictValue (AList.delete encoded_key t)) d\<rparr>,
                               (False, PyNone))
                      | Inr False \<Rightarrow> Inr (s1, (True, resp)))))"

text \<open>
  \<open>delete_data\<close>: \<open>if the_cache and encoded_key in the_cache\<close>; \<open>None\<close> and the empty
  \<open>dict\<close> are both false.
\<close>

definition Memory_delete_data ::
  "MemoryKeyStorage \<Rightarrow> string \<Rightarrow> string \<Rightarrow> error + MemoryKeyStorage" where
  "Memory_delete_data s cache_name encoded_key =
     (let (d, the_cache) = defaultdict_getitem (idempotency_key_cache_data s) cache_name;
          s1 = s\<lparr>idempotency_key_cache_data := d\<rparr>
      in case the_cache of
           NoneValue \<Rightarrow> Inr s1
         | DictValue t \<Rightarrow>
             if t \<noteq> [] \<and> map_of t encoded_key \<noteq> None
             then Inr (s\<lparr>idempotency_key_cache_data :=
                           AList.update cache_name
                             (DictValue (AList.delete encoded_key t)) d\<rparr>)
             else Inr s1)"

definition Memory_validate_storage :: "string \<Rightarrow> error + unit" where
  "Memory_validate_storage name = Inr ()"

subsection \<open>\<open>CacheKeyStorage\<close>\<close>

text \<open>
  \<open>CacheKeyStorage\<close> keeps no records of its own: every operation goes through Django's
  process-wide \<open>caches\<close> handler, which is not part of this module. The handler is a
  parameter of the model: an association list from the configured cache names to the
  contents of each cache at the moment of the call. \<open>caches[name]\<close> raises
  \<open>InvalidCacheBackendError\<close> for a name that is not configured (as the comment in
  \<open>validate_storage\<close> says). \<open>key in cache\<close>, \<open>get\<close>, \<open>set\<close> and \<open>delete\<close> read and
  write the table, and \<open>get\<close> answers \<open>None\<close> for a missing key.

  \<open>set\<close> is called without a timeout, so every entry is subject to the TIMEOUT of the
  cache, and a cache may evict entries as well. When the cache drops an entry is
  not decided by this module: between two calls it is the step \<open>Expire\<close> of a run
  (below), and inside \<open>retrieve_data\<close>, between the membership test and \<open>get\<close>, it is
  the argument \<open>dropped\<close>.
\<close>

type_synonym django_caches = "(string \<times> table) list"

definition caches_getitem :: "django_caches \<Rightarrow> string \<Rightarrow> error + table" where
  "caches_getitem cs name =
     (case map_of cs name of None \<Rightarrow> Inl InvalidCacheBackendError | Some c \<Rightarrow> Inr c)"

definition cache_contains :: "table \<Rightarrow> string \<Rightarrow> bool" where
  "cache_contains c k = (map_of c k \<noteq> None)"

definition cache_get :: "table \<Rightarrow> string \<Rightarrow> CachedHttpResponse option" where
  "cache_get c k = map_of c k"

definition cache_set :: "django_caches \<Rightarrow> string \<Rightarrow> table \<Rightarrow> string \<Rightarrow> CachedHttpResponse
     \<Rightarrow> django_caches" where
  "cache_set cs name c k v = AList.update name (AList.update k v c) cs"

definition cache_delete :: "django_caches \<Rightarrow> string \<Rightarrow> table \<Rightarrow> string \<Rightarrow> django_caches" where
  "cache_delete cs name c k = AList.update name (AList.delete k c) cs"

definition Cache_store_data ::
  "django_caches \<Rightarrow> real \<Rightarrow> string \<Rightarrow> string \<Rightarrow> pyobject \<Rightarrow> error + django_caches" where
  "Cache_store_data cs now cache_name encoded_key resp =
     (let cached_response = CachedHttpResponse_init now resp
      in case caches_getitem cs cache_name of
           Inl e \<Rightarrow> Inl e
         | Inr c \<Rightarrow> Inr (cache_set cs cache_name c encoded_key cached_response))"

text \<open>
  \<open>retrieve_data\<close> takes the store's \<open>ttl\<close> as its first argument (the only attribute of a
  \<open>CacheKeyStorage\<close>). When the cache has dropped the entry after the membership test,
  \<open>get\<close> answers \<open>None\<close>, whose attribute access raises \<open>AttributeError\<close>.
\<close>

definition Cache_retrieve_data ::
  "int \<Rightarrow> django_caches \<Rightarrow> bool \<Rightarrow> real \<Rightarrow> string \<Rightarrow> string
     \<Rightarrow> error + (django_caches \<times> (bool \<times> pyobject))" where
  "Cache_retrieve_data T cs dropped now cache_name encoded_key =
     (case caches_getitem cs cache_name of
        Inl e \<Rightarrow> Inl e
      | Inr c \<Rightarrow>
          if \<not> cache_contains c encoded_key then Inr (cs, (False, PyNone))
          else (case (if dropped then None else cache_get c encoded_key) of
                  None \<Rightarrow> Inl AttributeError
                | Some v \<Rightarrow>
                    (let (resp, mt) = response_and_mtime v
                     in case reservation_expired T now resp mt of
                          Inl e \<Rightarrow> Inl e
                        | Inr True \<Rightarrow>
                            Inr (cache_delete cs cache_name c encoded_key, (False, PyNone))
                        | Inr False \<Rightarrow> Inr (cs, (True, resp)))))"

definition Cache_delete_data ::
  "django_caches \<Rightarrow> string \<Rightarrow> string \<Rightarrow> error + django_caches" where
  "Cache_delete_data cs cache_name encoded_key =
     (case caches_getitem cs cache_name of
        Inl e \<Rightarrow> Inl e
      | Inr c \<Rightarrow>
          if cache_contains c encoded_key
          then Inr (cache_delete cs cache_name c encoded_key)
          else Inr cs)"

definition Cache_validate_storage :: "django_caches \<Rightarrow> string \<Rightarrow> error + unit" where
  "Cache_validate_storage cs name =
     (case caches_getitem cs name of Inl e \<Rightarrow> Inl e | Inr c \<Rightarrow> Inr ())"

subsection \<open>Observations and runs\<close>

text \<open>The record a store holds under a namespace and a key, if any.\<close>

definition Memory_record :: "MemoryKeyStorage \<Rightarrow> string \<Rightarrow> string \<Rightarrow> CachedHttpResponse option" where
  "Memory_record s cache_name encoded_key =
     (case map_of (idempotency_key_cache_data s) cache_name of
        Some (DictValue t) \<Rightarrow> map_of t encoded_key
      | Some NoneValue \<Rightarrow> None
      | None \<Rightarrow> None)"

definition Cache_record :: "django_caches \<Rightarrow> string \<Rightarrow> string \<Rightarrow> CachedHttpResponse option" where
  "Cache_record cs cache_name encoded_key =
     (case map_of cs cache_name of Some c \<Rightarrow> map_of c encoded_key | None \<Rightarrow> None)"

text \<open>
  A step of a run is a call of one of the three operations or the shared cache dropping
  an entry on its own (\<open>Expire\<close>: expiry under its TIMEOUT, eviction). A run is a timed
  sequence of steps. A call that raises leaves the state as it was. The in-process store
  never drops a record on its own, so \<open>Expire\<close> does nothing there.
\<close>

datatype call =
  Store string string pyobject | Retrieve string string | Delete string string
  | Expire string string

fun Memory_call :: "MemoryKeyStorage \<Rightarrow> real \<times> call \<Rightarrow> MemoryKeyStorage" where
  "Memory_call s (now, Store ns k r) =
     (case Memory_store_data s now ns k r of Inl e \<Rightarrow> s | Inr s' \<Rightarrow> s')"
| "Memory_call s (now, Retrieve ns k) =
     (case Memory_retrieve_data s now ns k of Inl e \<Rightarrow> s | Inr (s', res) \<Rightarrow> s')"
| "Memory_call s (now, Delete ns k) =
     (case Memory_delete_data s ns k of Inl e \<Rightarrow> s | Inr s' \<Rightarrow> s')"
| "Memory_call s (now, Expire ns k) = s"

definition Memory_run :: "MemoryKeyStorage \<Rightarrow> (real \<times> call) list \<Rightarrow> MemoryKeyStorage" where
  "Memory_run s cs = foldl Memory_call s cs"

fun Cache_call :: "int \<Rightarrow> django_caches \<Rightarrow> real \<times> call \<Rightarrow> django_caches" where
  "Cache_call T cs (now, Store ns k r) =
     (case Cache_store_data cs now ns k r of Inl e \<Rightarrow> cs | Inr cs' \<Rightarrow> cs')"
| "Cache_call T cs (now, Retrieve ns k) =
     (case Cache_retrieve_data T cs False now ns k of Inl e \<Rightarrow> cs | Inr (cs', res) \<Rightarrow> cs')"
| "Cache_call T cs (now, Delete ns k) =
     (case Cache_delete_data cs ns k of Inl e \<Rightarrow> cs | Inr cs' \<Rightarrow> cs')"
| "Cache_call T cs (now, Expire ns k) =
     (case map_of cs ns of None \<Rightarrow> cs | Some c \<Rightarrow> cache_delete cs ns c k)"

text \<open>
  A record that \<open>retrieve_data\<close> reclaims at time \<open>now\<close>: the test for an abandoned
  reservation is evaluated without an error and holds.
\<close>

definition expired :: "int \<Rightarrow> real \<Rightarrow> CachedHttpResponse \<Rightarrow> bool" where
  "expired T now c = (reservation_expired T now (response c) (mtime c) = Inr True)"

text \<open>No namespace of the store holds \<open>None\<close> in place of a table.\<close>

definition no_none_table :: "MemoryKeyStorage \<Rightarrow> bool" where
  "no_none_table s = (NoneValue \<notin> snd ` set (idempotency_key_cache_data s))"


fun stores_key :: "string \<Rightarrow> string \<Rightarrow> call \<Rightarrow> bool" where
  "stores_key ns k (Store ns' k' r) = (ns' = ns \<and> k' = k)"
| "stores_key ns k (Delete ns' k') = False"
| "stores_key ns k (Retrieve ns' k') = False"
| "stores_key ns k (Expire ns' k') = False"

fun reserves_key :: "string \<Rightarrow> string \<Rightarrow> call \<Rightarrow> bool" where
  "reserves_key ns k (Store ns' k' r) = (ns' = ns \<and> k' = k \<and> r = PyNone)"
| "reserves_key ns k (Delete ns' k') = False"
| "reserves_key ns k (Retrieve ns' k') = False"
| "reserves_key ns k (Expire ns' k') = False"

definition Cache_run :: "int \<Rightarrow> django_caches \<Rightarrow> (real \<times> call) list \<Rightarrow> django_caches" where
  "Cache_run T cs calls = foldl (Cache_call T) cs calls"

section \<open>Basic facts about the operations\<close>

lemma getitem_missing:
  "map_of d k = None \<Longrightarrow>
     defaultdict_getitem d k = (AList.update k (DictValue []) d, DictValue [])"
  by (simp add: defaultdict_getitem_def)

lemma store_record:
  assumes "Memory_store_data s now ns k r = Inr s'"
  shows "Memory_record s' ns' k' =
           (if ns' = ns \<and> k' = k then Some \<lparr>response = r, mtime = now\<rparr>
            else Memory_record s ns' k')"
    and "ttl s' = ttl s"
    and "map_of (idempotency_key_cache_data s') ns \<noteq> None"
  using assms
  by (auto simp add: Memory_store_data_def defaultdict_getitem_def Memory_record_def
        CachedHttpResponse_init_def update_conv' Let_def
      split: option.splits pyvalue.splits if_splits)

lemma reservation_expired_error:
  assumes "reservation_expired T now resp mt = Inl e"
  shows "e = OverflowError" and "resp = PyNone" and "float_of_int T = Inl OverflowError"
  using assms
  by (auto simp add: reservation_expired_def float_of_int_def
      split: if_splits sum.splits pyfloat.splits)

lemma reservation_expired_completed:
  "resp \<noteq> PyNone \<Longrightarrow> reservation_expired T now resp mt = Inr False"
  by (simp add: reservation_expired_def)

lemma reservation_expired_sentinel:
  "float_of_int T = Inr tf \<Longrightarrow>
     reservation_expired T now PyNone mt = Inr (float_less (float_add mt tf) now)"
  by (simp add: reservation_expired_def)

lemma reservation_expired_overflow:
  "float_of_int T = Inl e \<Longrightarrow> reservation_expired T now PyNone mt = Inl e"
  by (simp add: reservation_expired_def)


lemma not_expired_overflow: "float_of_int T = Inl e \<Longrightarrow> \<not> expired T now c"
  by (cases "response c = PyNone")
     (simp_all add: expired_def reservation_expired_completed reservation_expired_overflow)

lemma retrieve_error:
  assumes "Memory_retrieve_data s now ns k = Inl e"
  shows "e = OverflowError"
    and "\<exists>c. Memory_record s ns k = Some c \<and> response c = PyNone"
    and "float_of_int (ttl s) = Inl OverflowError"
  using assms
  by (auto simp add: Memory_retrieve_data_def defaultdict_getitem_def Memory_record_def
        response_and_mtime_def Let_def
      split: option.splits pyvalue.splits sum.splits bool.splits
      dest: reservation_expired_error)

lemma retrieve_total:
  assumes "\<forall>c. Memory_record s ns k = Some c \<longrightarrow>
             response c \<noteq> PyNone \<or> float_of_int (ttl s) \<noteq> Inl OverflowError"
  shows "\<exists>s' res. Memory_retrieve_data s now ns k = Inr (s', res)"
proof (cases "Memory_retrieve_data s now ns k")
  case (Inl e)
  from retrieve_error(2,3) [OF Inl] assms show ?thesis by auto
next
  case (Inr p)
  then show ?thesis by (cases p) simp
qed


lemma retrieve_result:
  assumes "Memory_retrieve_data s now ns k = Inr (s', res)"
  shows "res = (case Memory_record s ns k of
                  None \<Rightarrow> (False, PyNone)
                | Some c \<Rightarrow> if expired (ttl s) now c then (False, PyNone) else (True, response c))"
    and "Memory_record s' ns' k' =
           (if ns' = ns \<and> k' = k \<and> (\<exists>c. Memory_record s ns k = Some c \<and> expired (ttl s) now c)
            then None else Memory_record s ns' k')"
    and "ttl s' = ttl s"
    and "map_of (idempotency_key_cache_data s') ns \<noteq> None"
  using assms
  by (auto simp add: Memory_retrieve_data_def defaultdict_getitem_def Memory_record_def
        response_and_mtime_def update_conv' delete_conv' Let_def expired_def
      split: option.splits pyvalue.splits if_splits sum.splits bool.splits)

lemma delete_total:
  "\<exists>s'. Memory_delete_data s ns k = Inr s'"
  by (auto simp add: Memory_delete_data_def defaultdict_getitem_def Let_def
      split: option.splits pyvalue.splits)

lemma delete_record:
  assumes "Memory_delete_data s ns k = Inr s'"
  shows "Memory_record s' ns' k' =
           (if ns' = ns \<and> k' = k then None else Memory_record s ns' k')"
    and "ttl s' = ttl s"
    and "map_of (idempotency_key_cache_data s') ns \<noteq> None"
  using assms
  by (auto simp add: Memory_delete_data_def defaultdict_getitem_def Memory_record_def
        update_conv' delete_conv' Let_def
      split: option.splits pyvalue.splits if_splits)


lemma snd_set_update:
  "snd ` set (AList.update k v d) \<subseteq> insert v (snd ` set d)"
  by (induction d) auto


lemma no_none_table_lookup:
  "no_none_table s \<Longrightarrow> map_of (idempotency_key_cache_data s) ns \<noteq> Some NoneValue"
  unfolding no_none_table_def
  by (metis map_of_SomeD image_eqI snd_conv)

lemma no_none_table_update:
  assumes "(a, NoneValue) \<in> set (AList.update k (DictValue t) d)"
  shows "NoneValue \<in> snd ` set d"
  using assms snd_set_update [of k "DictValue t" d] by force

lemma no_none_table_init: "no_none_table (MemoryKeyStorage_init T)"
  by (simp add: no_none_table_def MemoryKeyStorage_init_def)

lemma no_none_table_store:
  "no_none_table s \<Longrightarrow> Memory_store_data s now ns k r = Inr s' \<Longrightarrow> no_none_table s'"
  by (auto simp add: no_none_table_def Memory_store_data_def defaultdict_getitem_def Let_def
      split: option.splits pyvalue.splits
      dest: no_none_table_update)

lemma no_none_table_retrieve:
  "no_none_table s \<Longrightarrow> Memory_retrieve_data s now ns k = Inr (s', res) \<Longrightarrow> no_none_table s'"
  by (auto simp add: no_none_table_def Memory_retrieve_data_def defaultdict_getitem_def Let_def
        response_and_mtime_def
      split: option.splits pyvalue.splits if_splits sum.splits bool.splits
      dest: no_none_table_update)

lemma no_none_table_delete:
  "no_none_table s \<Longrightarrow> Memory_delete_data s ns k = Inr s' \<Longrightarrow> no_none_table s'"
  by (auto simp add: no_none_table_def Memory_delete_data_def defaultdict_getitem_def Let_def
      split: option.splits pyvalue.splits if_splits
      dest: no_none_table_update)

lemma no_none_table_call: "no_none_table s \<Longrightarrow> no_none_table (Memory_call s tc)"
proof (cases tc)
  case (Pair now c)
  assume wf: "no_none_table s"
  show ?thesis
  proof (cases c)
    case (Store ns k r)
    with Pair wf show ?thesis
      by (auto split: sum.splits dest: no_none_table_store)
  next
    case (Retrieve ns k)
    with Pair wf show ?thesis
      by (auto split: sum.splits dest: no_none_table_retrieve)
  next
    case (Delete ns k)
    with Pair wf show ?thesis
      by (auto split: sum.splits dest: no_none_table_delete)
  next
    case (Expire ns k)
    with Pair wf show ?thesis by simp
  qed
qed

lemma no_none_table_run: "no_none_table s \<Longrightarrow> no_none_table (Memory_run s cs)"
  unfolding Memory_run_def
  by (induction cs arbitrary: s) (simp_all add: no_none_table_call)

lemma ttl_call: "ttl (Memory_call s tc) = ttl s"
proof (cases tc)
  case (Pair now c)
  show ?thesis
  proof (cases c)
    case (Store ns k r)
    with Pair show ?thesis by (auto split: sum.splits dest: store_record(2))
  next
    case (Retrieve ns k)
    with Pair show ?thesis by (auto split: sum.splits dest: retrieve_result(3))
  next
    case (Delete ns k)
    with Pair show ?thesis by (auto split: sum.splits dest: delete_record(2))
  next
    case (Expire ns k)
    with Pair show ?thesis by simp
  qed
qed

lemma ttl_run: "ttl (Memory_run s cs) = ttl s"
  unfolding Memory_run_def
  by (induction cs arbitrary: s) (simp_all add: ttl_call)

lemma ttl_run_init: "ttl (Memory_run (MemoryKeyStorage_init T) cs) = T"
  by (simp add: ttl_run MemoryKeyStorage_init_def)

lemma store_succeeds:
  assumes "no_none_table s"
  shows "\<exists>s' t. Memory_store_data s now ns k r = Inr s'
           \<and> ttl s' = ttl s
           \<and> map_of (idempotency_key_cache_data s') ns = Some (DictValue t)
           \<and> map_of t k = Some \<lparr>response = r, mtime = now\<rparr>"
  using no_none_table_lookup [OF assms, of ns]
  by (auto simp add: Memory_store_data_def defaultdict_getitem_def Let_def update_conv'
        CachedHttpResponse_init_def
      split: option.splits pyvalue.splits)

lemma retrieve_unfold:
  assumes "map_of (idempotency_key_cache_data s) ns = Some (DictValue t)"
  shows "Memory_retrieve_data s now ns k =
           (case map_of t k of
              None \<Rightarrow> Inr (s, (False, PyNone))
            | Some c \<Rightarrow>
                (case reservation_expired (ttl s) now (response c) (mtime c) of
                   Inl e \<Rightarrow> Inl e
                 | Inr True \<Rightarrow>
                     Inr (s\<lparr>idempotency_key_cache_data :=
                              AList.update ns (DictValue (AList.delete k t))
                                (idempotency_key_cache_data s)\<rparr>, (False, PyNone))
                 | Inr False \<Rightarrow> Inr (s, (True, response c))))"
  using assms
  by (simp add: Memory_retrieve_data_def defaultdict_getitem_def Let_def response_and_mtime_def
      split: option.splits sum.splits bool.splits)

lemma cache_store_unfold:
  assumes "map_of cs ns = Some c"
  shows "Cache_store_data cs now ns k r =
           Inr (AList.update ns (AList.update k \<lparr>response = r, mtime = now\<rparr> c) cs)"
  using assms
  by (simp add: Cache_store_data_def caches_getitem_def cache_set_def CachedHttpResponse_init_def)

lemma cache_retrieve_unfold:
  assumes "map_of cs ns = Some c"
  shows "Cache_retrieve_data T cs False now ns k =
           (case map_of c k of
              None \<Rightarrow> Inr (cs, (False, PyNone))
            | Some v \<Rightarrow>
                (case reservation_expired T now (response v) (mtime v) of
                   Inl e \<Rightarrow> Inl e
                 | Inr True \<Rightarrow> Inr (AList.update ns (AList.delete k c) cs, (False, PyNone))
                 | Inr False \<Rightarrow> Inr (cs, (True, response v))))"
  using assms
  by (simp add: Cache_retrieve_data_def caches_getitem_def cache_contains_def cache_get_def
        cache_delete_def response_and_mtime_def Let_def
      split: option.splits sum.splits bool.splits)

lemma cache_retrieve_absent:
  assumes "map_of cs ns = Some c" and "map_of c k = None"
  shows "Cache_retrieve_data T cs dropped now ns k = Inr (cs, (False, PyNone))"
  using assms
  by (simp add: Cache_retrieve_data_def caches_getitem_def cache_contains_def)

lemma cache_retrieve_dropped:
  assumes "map_of cs ns = Some c" and "map_of c k = Some v"
  shows "Cache_retrieve_data T cs True now ns k = Inl AttributeError"
  using assms
  by (simp add: Cache_retrieve_data_def caches_getitem_def cache_contains_def)

text \<open>The record under a key after one call, in terms of the record before.\<close>

lemma Memory_call_record:
  "Memory_record (Memory_call s (now, c)) ns k =
     (case c of
        Store ns' k' r \<Rightarrow>
          (case Memory_store_data s now ns' k' r of
             Inl e \<Rightarrow> Memory_record s ns k
           | Inr s' \<Rightarrow> if ns = ns' \<and> k = k' then Some \<lparr>response = r, mtime = now\<rparr>
                       else Memory_record s ns k)
      | Retrieve ns' k' \<Rightarrow>
          (if ns = ns' \<and> k = k' \<and>
              (\<exists>v. Memory_record s ns k = Some v \<and> expired (ttl s) now v)
           then None else Memory_record s ns k)
      | Delete ns' k' \<Rightarrow>
          (if ns = ns' \<and> k = k' then None else Memory_record s ns k)
      | Expire ns' k' \<Rightarrow> Memory_record s ns k)"
proof (cases c)
  case (Store ns' k' r)
  then show ?thesis
    by (auto split: sum.splits simp add: store_record(1))
next
  case (Retrieve ns' k')
  show ?thesis
  proof (cases "Memory_retrieve_data s now ns' k'")
    case (Inl e)
    from retrieve_error(3) [OF Inl] have "\<not> expired (ttl s) now v" for v
      by (rule not_expired_overflow)
    with Inl Retrieve show ?thesis by simp
  next
    case (Inr p)
    obtain s' res where p: "p = (s', res)" by (cases p)
    from retrieve_result(2) [OF Inr [unfolded p], of ns k] Retrieve Inr p show ?thesis
      by auto
  qed
next
  case (Expire ns' k')
  then show ?thesis by simp
next
  case (Delete ns' k')
  obtain s' where d: "Memory_delete_data s ns' k' = Inr s'"
    using delete_total by blast
  from delete_record(1) [OF d, of ns k] Delete d show ?thesis
    by auto
qed

lemma cache_delete_unfold:
  assumes "map_of cs ns = Some c"
  shows "Cache_delete_data cs ns k =
           (if map_of c k \<noteq> None then Inr (AList.update ns (AList.delete k c) cs) else Inr cs)"
  using assms
  by (simp add: Cache_delete_data_def caches_getitem_def cache_contains_def cache_delete_def)

lemma cache_unconfigured:
  assumes "map_of cs ns = None"
  shows "Cache_store_data cs now ns k r = Inl InvalidCacheBackendError"
    and "Cache_retrieve_data T cs dropped now ns k = Inl InvalidCacheBackendError"
    and "Cache_delete_data cs ns k = Inl InvalidCacheBackendError"
  using assms
  by (simp_all add: Cache_store_data_def Cache_retrieve_data_def Cache_delete_data_def
        caches_getitem_def)

lemma Cache_record_update:
  "Cache_record (AList.update ns c cs) ns' k' =
     (if ns' = ns then map_of c k' else Cache_record cs ns' k')"
  by (simp add: Cache_record_def update_conv')

lemma Cache_call_record:
  "Cache_record (Cache_call T cs (now, c)) ns k =
     (case c of
        Store ns' k' r \<Rightarrow>
          (case Cache_store_data cs now ns' k' r of
             Inl e \<Rightarrow> Cache_record cs ns k
           | Inr cs' \<Rightarrow> if ns = ns' \<and> k = k' then Some \<lparr>response = r, mtime = now\<rparr>
                        else Cache_record cs ns k)
      | Retrieve ns' k' \<Rightarrow>
          (if ns = ns' \<and> k = k' \<and>
              (\<exists>v. Cache_record cs ns k = Some v \<and> expired T now v)
           then None else Cache_record cs ns k)
      | Delete ns' k' \<Rightarrow>
          (if ns = ns' \<and> k = k' then None else Cache_record cs ns k)
      | Expire ns' k' \<Rightarrow>
          (if ns = ns' \<and> k = k' then None else Cache_record cs ns k))"
proof (cases c)
  case (Expire ns' k')
  show ?thesis
  proof (cases "map_of cs ns'")
    case None
    then show ?thesis by (simp add: Expire Cache_record_def)
  next
    case (Some t)
    have rec: "Cache_record cs ns' kk = map_of t kk" for kk
      by (simp add: Cache_record_def Some)
    show ?thesis
      by (auto simp add: Expire Some cache_delete_def rec Cache_record_update delete_conv')
  qed
next
  case (Store ns' k' r)
  show ?thesis
  proof (cases "map_of cs ns'")
    case None
    then show ?thesis by (simp add: Store cache_unconfigured)
  next
    case (Some t)
    have "Cache_record cs ns' k = map_of t k" by (simp add: Cache_record_def Some)
    then show ?thesis
      by (simp add: Store cache_store_unfold [OF Some] Cache_record_update update_conv')
  qed
next
  case (Retrieve ns' k')
  show ?thesis
  proof (cases "map_of cs ns'")
    case None
    then show ?thesis by (simp add: Retrieve cache_unconfigured Cache_record_def)
  next
    case (Some t)
    have rec: "Cache_record cs ns' kk = map_of t kk" for kk
      by (simp add: Cache_record_def Some)
    show ?thesis
    proof (cases "map_of t k'")
      case None
      then show ?thesis
        by (simp add: Retrieve cache_retrieve_unfold [OF Some] rec)
    next
      case v: (Some v)
      then show ?thesis
        by (simp add: Retrieve cache_retrieve_unfold [OF Some] rec Cache_record_update
            delete_conv' expired_def split: sum.splits bool.splits)
    qed
  qed
next
  case (Delete ns' k')
  show ?thesis
  proof (cases "map_of cs ns'")
    case None
    then show ?thesis by (simp add: Delete cache_unconfigured Cache_record_def)
  next
    case (Some t)
    have rec: "Cache_record cs ns' kk = map_of t kk" for kk
      by (simp add: Cache_record_def Some)
    show ?thesis
      by (auto simp add: Delete cache_delete_unfold [OF Some] rec Cache_record_update
          delete_conv')
  qed
qed


lemma Memory_run_Nil: "Memory_run s [] = s"
  by (simp add: Memory_run_def)

lemma Memory_run_Cons: "Memory_run s (tc # calls) = Memory_run (Memory_call s tc) calls"
  by (simp add: Memory_run_def)

lemma Cache_run_Nil: "Cache_run T cs [] = cs"
  by (simp add: Cache_run_def)

lemma Cache_run_Cons: "Cache_run T cs (tc # calls) = Cache_run T (Cache_call T cs tc) calls"
  by (simp add: Cache_run_def)

lemma Memory_call_no_sentinel:
  assumes "\<not> reserves_key ns k c"
    and "\<forall>v. Memory_record s ns k = Some v \<longrightarrow> response v \<noteq> PyNone"
  shows "\<forall>v. Memory_record (Memory_call s (now, c)) ns k = Some v \<longrightarrow> response v \<noteq> PyNone"
proof (cases c)
  case (Store ns' k' r)
  with assms show ?thesis
    by (simp add: Memory_call_record del: Memory_call.simps split: sum.splits)
next
  case (Retrieve ns' k')
  with assms(2) show ?thesis
    by (simp add: Memory_call_record del: Memory_call.simps)
next
  case (Delete ns' k')
  with assms(2) show ?thesis
    by (simp add: Memory_call_record del: Memory_call.simps)
next
  case (Expire ns' k')
  with assms(2) show ?thesis
    by (simp add: Memory_call_record del: Memory_call.simps)
qed

lemma Memory_run_no_sentinel:
  assumes "\<forall>tc\<in>set calls. \<not> reserves_key ns k (snd tc)"
    and "\<forall>v. Memory_record s ns k = Some v \<longrightarrow> response v \<noteq> PyNone"
  shows "\<forall>v. Memory_record (Memory_run s calls) ns k = Some v \<longrightarrow> response v \<noteq> PyNone"
  using assms
proof (induction calls arbitrary: s)
  case Nil
  then show ?case by (simp add: Memory_run_Nil)
next
  case (Cons tc calls)
  obtain now c where tc: "tc = (now, c)" by (cases tc)
  from Cons.prems tc have "\<not> reserves_key ns k c" by simp
  from Memory_call_no_sentinel [OF this Cons.prems(2)]
  have "\<forall>v. Memory_record (Memory_call s tc) ns k = Some v \<longrightarrow> response v \<noteq> PyNone"
    by (simp add: tc)
  moreover from Cons.prems have "\<forall>tc\<in>set calls. \<not> reserves_key ns k (snd tc)" by simp
  ultimately show ?case
    using Cons.IH by (simp add: Memory_run_Cons)
qed

lemma Cache_call_no_sentinel:
  assumes "\<not> reserves_key ns k c"
    and "\<forall>v. Cache_record cs ns k = Some v \<longrightarrow> response v \<noteq> PyNone"
  shows "\<forall>v. Cache_record (Cache_call T cs (now, c)) ns k = Some v \<longrightarrow> response v \<noteq> PyNone"
proof (cases c)
  case (Store ns' k' r)
  with assms show ?thesis
    by (simp add: Cache_call_record del: Cache_call.simps split: sum.splits)
next
  case (Retrieve ns' k')
  with assms(2) show ?thesis
    by (simp add: Cache_call_record del: Cache_call.simps)
next
  case (Delete ns' k')
  with assms(2) show ?thesis
    by (simp add: Cache_call_record del: Cache_call.simps)
next
  case (Expire ns' k')
  with assms(2) show ?thesis
    by (simp add: Cache_call_record del: Cache_call.simps)
qed

lemma Cache_run_no_sentinel:
  assumes "\<forall>tc\<in>set calls. \<not> reserves_key ns k (snd tc)"
    and "\<forall>v. Cache_record cs ns k = Some v \<longrightarrow> response v \<noteq> PyNone"
  shows "\<forall>v. Cache_record (Cache_run T cs calls) ns k = Some v \<longrightarrow> response v \<noteq> PyNone"
  using assms
proof (induction calls arbitrary: cs)
  case Nil
  then show ?case by (simp add: Cache_run_Nil)
next
  case (Cons tc calls)
  obtain now c where tc: "tc = (now, c)" by (cases tc)
  from Cons.prems tc have "\<not> reserves_key ns k c" by simp
  from Cache_call_no_sentinel [OF this Cons.prems(2)]
  have "\<forall>v. Cache_record (Cache_call T cs tc) ns k = Some v \<longrightarrow> response v \<noteq> PyNone"
    by (simp add: tc)
  moreover from Cons.prems have "\<forall>tc\<in>set calls. \<not> reserves_key ns k (snd tc)" by simp
  ultimately show ?case
    using Cons.IH by (simp add: Cache_run_Cons)
qed

lemma AList_update_fresh: "map_of d k = None \<Longrightarrow> AList.update k v d = d @ [(k, v)]"
  by (induction d) (auto split: if_splits)



lemma Memory_call_keeps_absent:
  assumes "\<not> stores_key ns k c" and "Memory_record s ns k = None"
  shows "Memory_record (Memory_call s (now, c)) ns k = None"
proof (cases c)
  case (Store ns' k' r)
  with assms show ?thesis
    by (auto simp add: Memory_call_record simp del: Memory_call.simps split: sum.splits)
next
  case (Retrieve ns' k')
  with assms show ?thesis
    by (simp add: Memory_call_record del: Memory_call.simps)
next
  case (Delete ns' k')
  with assms show ?thesis
    by (simp add: Memory_call_record del: Memory_call.simps)
next
  case (Expire ns' k')
  with assms show ?thesis
    by (simp add: Memory_call_record del: Memory_call.simps)
qed

lemma Memory_run_keeps_absent:
  assumes "\<forall>tc\<in>set calls. \<not> stores_key ns k (snd tc)" and "Memory_record s ns k = None"
  shows "Memory_record (Memory_run s calls) ns k = None"
  using assms
proof (induction calls arbitrary: s)
  case Nil
  then show ?case by (simp add: Memory_run_Nil)
next
  case (Cons tc calls)
  obtain now c where tc: "tc = (now, c)" by (cases tc)
  from Cons.prems tc have "\<not> stores_key ns k c" by simp
  from Memory_call_keeps_absent [OF this Cons.prems(2)]
  have "Memory_record (Memory_call s tc) ns k = None" by (simp add: tc)
  moreover from Cons.prems have "\<forall>tc\<in>set calls. \<not> stores_key ns k (snd tc)" by simp
  ultimately show ?case
    using Cons.IH by (simp add: Memory_run_Cons)
qed

lemma Memory_record_init: "Memory_record (MemoryKeyStorage_init T) ns k = None"
  by (simp add: Memory_record_def MemoryKeyStorage_init_def)

lemma retrieve_absent:
  assumes "Memory_record s ns k = None"
  shows "\<exists>s'. Memory_retrieve_data s now ns k = Inr (s', (False, PyNone))
           \<and> (\<forall>ns' k'. Memory_record s' ns' k' = Memory_record s ns' k')"
proof -
  obtain s' res where rt: "Memory_retrieve_data s now ns k = Inr (s', res)"
    using retrieve_total [of s ns k now] assms by auto
  have "res = (False, PyNone)"
    by (simp add: retrieve_result(1) [OF rt] assms)
  moreover have "Memory_record s' ns' k' = Memory_record s ns' k'" for ns' k'
    by (simp add: retrieve_result(2) [OF rt] assms)
  ultimately show ?thesis using rt by blast
qed

lemma delete_absent:
  assumes "Memory_record s ns k = None"
  shows "\<exists>s'. Memory_delete_data s ns k = Inr s'
           \<and> (\<forall>ns' k'. Memory_record s' ns' k' = Memory_record s ns' k')"
proof -
  obtain s' where d: "Memory_delete_data s ns k = Inr s'"
    using delete_total by blast
  have "Memory_record s' ns' k' = Memory_record s ns' k'" for ns' k'
    using assms by (simp add: delete_record(1) [OF d])
  with d show ?thesis by blast
qed

lemma Memory_record_unseen:
  "map_of (idempotency_key_cache_data s) ns = None \<Longrightarrow> Memory_record s ns k = None"
  by (simp add: Memory_record_def)

lemma Memory_record_SomeD:
  assumes "Memory_record s ns k = Some v"
  shows "\<exists>t. map_of (idempotency_key_cache_data s) ns = Some (DictValue t) \<and> map_of t k = Some v"
  using assms
  by (auto simp add: Memory_record_def split: option.splits pyvalue.splits)

lemma store_existing:
  assumes "map_of (idempotency_key_cache_data s) ns = Some (DictValue t)"
  shows "Memory_store_data s now ns k r =
           Inr (s\<lparr>idempotency_key_cache_data :=
                    AList.update ns (DictValue (AList.update k (CachedHttpResponse_init now r) t))
                      (idempotency_key_cache_data s)\<rparr>)"
  using assms
  by (simp add: Memory_store_data_def defaultdict_getitem_def)

lemma Cache_record_SomeD:
  assumes "Cache_record cs ns k = Some v"
  shows "\<exists>c. map_of cs ns = Some c \<and> map_of c k = Some v"
  using assms
  by (auto simp add: Cache_record_def split: option.splits)

lemma retrieve_absent_seen:
  assumes "map_of (idempotency_key_cache_data s) ns \<noteq> None"
    and "Memory_record s ns k = None"
  shows "Memory_retrieve_data s now ns k = Inr (s, (False, PyNone))"
  using assms
  by (auto simp add: Memory_retrieve_data_def defaultdict_getitem_def Memory_record_def
      split: pyvalue.splits)

text \<open>Float arithmetic at the inputs used below, and conversion of a large integer.\<close>


lemma bitlen_1: "bitlen 1 = 1" by code_simp
lemma bitlen_5: "bitlen 5 = 3" by code_simp
lemma bitlen_tie: "bitlen 9007199254740995 = 54" by code_simp

lemma float_of_int_5: "float_of_int 5 = Inr 5"
  by (simp add: float_of_int_def round_double_def round_magnitude_def ulp_def binade_def bitlen_5 pow2_def round_half_even_def)
lemma float_add_0_5: "float_add 0 5 = Finite 5"
  by (simp add: float_add_def round_double_def round_magnitude_def ulp_def binade_def bitlen_5 pow2_def round_half_even_def)
lemma float_of_int_1: "float_of_int 1 = Inr 1"
  by (simp add: float_of_int_def round_double_def round_magnitude_def ulp_def binade_def bitlen_1 pow2_def round_half_even_def)
lemma float_add_tie: "float_add 9007199254740994 1 = Finite 9007199254740996"
  by (simp add: float_add_def round_double_def round_magnitude_def ulp_def binade_def bitlen_tie pow2_def round_half_even_def)

lemma round_half_even_ge_floor: "\<lfloor>y\<rfloor> \<le> round_half_even y"
  by (simp add: round_half_even_def Let_def)

lemma float_of_int_overflow:
  assumes "2 ^ 1024 \<le> n"
  shows "float_of_int n = Inl OverflowError"
proof -
  let ?a = "real_of_int n"
  have big: "(2::real) ^ 1024 \<le> ?a"
    using assms by (metis of_int_le_iff of_int_numeral of_int_power)
  have "(1::real) \<le> 2 ^ 1024" by (rule one_le_power) simp
  from this big have one: "1 \<le> ?a" by (rule order_trans)
  then have pos: "0 < ?a" by linarith
  from pos have npos: "0 < n" by simp
  let ?B = "bitlen n"
  from bitlen_bounds [OF npos] have lo: "2 ^ nat (?B - 1) \<le> n" and hi: "n < 2 ^ nat ?B"
    by simp_all
  from assms hi have "(2::int) ^ 1024 < 2 ^ nat ?B" by (rule le_less_trans)
  then have "1024 < nat ?B" by (rule power_less_imp_less_exp [rotated]) simp
  then have B: "1025 \<le> ?B" by simp
  let ?e = "?B - 1"
  have e: "max (binade ?a) (- 1022) = ?e"
    using one B by (simp add: binade_def)
  let ?u = "(2::real) ^ nat (?e - 52)"
  have u: "pow2 (?e - 52) = ?u"
    using B by (simp add: pow2_def)
  have upos: "0 < ?u" by simp
  have "(2::real) ^ nat ?e \<le> ?a"
    using lo by (metis of_int_le_iff of_int_numeral of_int_power)
  moreover have "(2::real) ^ nat ?e = 2 ^ 52 * ?u"
  proof -
    have "nat ?e = 52 + nat (?e - 52)" using B by simp
    then show ?thesis by (simp only: power_add)
  qed
  ultimately have "2 ^ 52 \<le> ?a / ?u"
    using upos by (simp add: pos_le_divide_eq)
  then have "(2::int) ^ 52 \<le> \<lfloor>?a / ?u\<rfloor>"
    by (simp add: le_floor_iff)
  with round_half_even_ge_floor [of "?a / ?u"]
  have q: "(2::int) ^ 52 \<le> round_half_even (?a / ?u)" by linarith
  have "pow2 1024 = (2::real) ^ 1024" by (simp add: pow2_def)
  also have "\<dots> \<le> 2 ^ nat ?e"
    using B by (intro power_increasing) simp_all
  also have "\<dots> = 2 ^ 52 * ?u" by fact
  also have "\<dots> \<le> of_int (round_half_even (?a / ?u)) * ?u"
  proof -
    from q have "(2::real) ^ 52 \<le> of_int (round_half_even (?a / ?u))"
      by (metis of_int_le_iff of_int_numeral of_int_power)
    then show ?thesis using upos by (simp add: mult_right_mono)
  qed
  finally have r: "pow2 1024 \<le> of_int (round_half_even (?a / ?u)) * ?u" .
  have "round_double ?a = PlusInfinity"
    using pos r e u by (simp add: round_double_def round_magnitude_def ulp_def Let_def)
  then show ?thesis by (simp add: float_of_int_def)
qed

text \<open>
  Powers of two, binades and rounding: what is needed to compare a rounded sum with a
  double below the exact sum, and to convert integers of at most 53 bits exactly.
\<close>

lemma pow2_powi: "pow2 e = 2 powi e"
  by (simp add: pow2_def power_int_def inverse_eq_divide power_one_over)

lemma pow2_pos: "0 < pow2 e"
  by (simp add: pow2_powi)

lemma pow2_mono: "e \<le> e' \<Longrightarrow> pow2 e \<le> pow2 e'"
  by (simp add: pow2_powi power_int_increasing)

lemma pow2_add: "pow2 (e + e') = pow2 e * pow2 e'"
  by (simp add: pow2_powi power_int_add)

lemma pow2_nat: "pow2 (int n) = 2 ^ n"
  by (simp add: pow2_def)

lemma binade_bounds:
  assumes "0 < a"
  shows "pow2 (binade a) \<le> a" and "a < pow2 (binade a + 1)"
proof -
  have "pow2 (binade a) \<le> a \<and> a < pow2 (binade a + 1)"
  proof (cases "1 \<le> a")
    case True
    let ?n = "\<lfloor>a\<rfloor>"
    from True have n: "0 < ?n" by simp
    let ?B = "bitlen ?n"
    from bitlen_bounds [OF n]
    have lo: "2 ^ nat (?B - 1) \<le> ?n" and hi: "?n < 2 ^ nat ?B" by simp_all
    have B: "1 \<le> ?B"
    proof (rule ccontr)
      assume "\<not> 1 \<le> ?B"
      then have "nat ?B = 0" by simp
      with hi n show False by simp
    qed
    have "pow2 (?B - 1) = 2 ^ nat (?B - 1)"
      using B by (simp add: pow2_def)
    also have "\<dots> = of_int (2 ^ nat (?B - 1))" by simp
    also have "\<dots> \<le> of_int ?n" using lo by (simp only: of_int_le_iff)
    also have "\<dots> \<le> a" by simp
    finally have 1: "pow2 (?B - 1) \<le> a" .
    from hi have "?n + 1 \<le> 2 ^ nat ?B" by simp
    then have "real_of_int (?n + 1) \<le> real_of_int (2 ^ nat ?B)" by (simp only: of_int_le_iff)
    also have "\<dots> = 2 ^ nat ?B" by simp
    finally have "real_of_int ?n + 1 \<le> 2 ^ nat ?B" by simp
    with real_of_int_floor_add_one_gt [of a] have "a < 2 ^ nat ?B" by linarith
    also have "\<dots> = pow2 ?B" using B by (simp add: pow2_def)
    finally have 2: "a < pow2 ?B" .
    from True 1 2 show ?thesis by (simp add: binade_def)
  next
    case False
    let ?y = "1 / a"
    let ?m = "\<lceil>?y\<rceil> - 1"
    from False assms have y: "1 < ?y" by simp
    then have m: "0 < ?m" by (simp add: less_ceiling_iff)
    have my: "of_int ?m < ?y" by linarith
    have ym: "?y \<le> of_int ?m + 1" by (simp add: le_of_int_ceiling)
    let ?B = "bitlen ?m"
    from bitlen_bounds [OF m]
    have lo: "2 ^ nat (?B - 1) \<le> ?m" and hi: "?m < 2 ^ nat ?B" by simp_all
    have B: "1 \<le> ?B"
    proof (rule ccontr)
      assume "\<not> 1 \<le> ?B"
      then have "nat ?B = 0" by simp
      with hi m show False by simp
    qed
    from hi have "?m + 1 \<le> 2 ^ nat ?B" by simp
    then have "real_of_int (?m + 1) \<le> real_of_int (2 ^ nat ?B)" by (simp only: of_int_le_iff)
    also have "\<dots> = 2 ^ nat ?B" by simp
    finally have up: "real_of_int (?m + 1) \<le> 2 ^ nat ?B" .
    have "real_of_int (?m + 1) = real_of_int ?m + 1" by (simp only: of_int_add of_int_1)
    with up ym have "?y \<le> 2 ^ nat ?B" by linarith
    then have "1 / 2 ^ nat ?B \<le> a"
      using assms by (simp add: field_simps)
    moreover have "pow2 (- ?B) = 1 / 2 ^ nat ?B"
      using B by (simp add: pow2_def)
    ultimately have 1: "pow2 (- ?B) \<le> a" by simp
    have "real_of_int (2 ^ nat (?B - 1)) \<le> real_of_int ?m"
      using lo by (simp only: of_int_le_iff)
    moreover have "real_of_int (2 ^ nat (?B - 1)) = 2 ^ nat (?B - 1)" by simp
    ultimately have "2 ^ nat (?B - 1) \<le> real_of_int ?m" by (simp only:)
    with my have "2 ^ nat (?B - 1) < ?y" by linarith
    then have "a < 1 / 2 ^ nat (?B - 1)"
      using assms by (simp add: field_simps)
    moreover have "pow2 (- ?B + 1) = 1 / 2 ^ nat (?B - 1)"
    proof (cases "?B = 1")
      case True
      then show ?thesis by (simp add: pow2_def)
    next
      case False
      with B have "- ?B + 1 < 0" by simp
      moreover have "nat (- (- ?B + 1)) = nat (?B - 1)" by simp
      ultimately show ?thesis by (simp add: pow2_def)
    qed
    ultimately have 2: "a < pow2 (- ?B + 1)" by simp
    from False 1 2 show ?thesis by (simp add: binade_def)
  qed
  then show "pow2 (binade a) \<le> a" and "a < pow2 (binade a + 1)" by simp_all
qed

lemma binade_mono:
  assumes "0 < a" and "a \<le> b"
  shows "binade a \<le> binade b"
proof (rule ccontr)
  assume "\<not> binade a \<le> binade b"
  then have "binade b + 1 \<le> binade a" by simp
  then have "pow2 (binade b + 1) \<le> pow2 (binade a)" by (rule pow2_mono)
  also have "\<dots> \<le> a" using assms(1) by (rule binade_bounds)
  also have "\<dots> \<le> b" by fact
  also have "\<dots> < pow2 (binade b + 1)" using assms by (intro binade_bounds) simp
  finally show False by simp
qed

lemma round_half_even_ge:
  assumes "of_int m \<le> y"
  shows "m \<le> round_half_even y"
proof -
  from assms have "m \<le> \<lfloor>y\<rfloor>" by (simp add: le_floor_iff)
  with round_half_even_ge_floor [of y] show ?thesis by simp
qed

lemma round_half_even_le:
  assumes "y \<le> of_int m"
  shows "round_half_even y \<le> m"
proof (cases "y = of_int m")
  case True
  then show ?thesis by (simp add: round_half_even_def)
next
  case False
  with assms have "y < of_int m" by simp
  then have "\<lfloor>y\<rfloor> < m" by (simp add: floor_less_iff)
  then have "\<lfloor>y\<rfloor> + 1 \<le> m" by simp
  moreover have "round_half_even y \<le> \<lfloor>y\<rfloor> + 1"
    by (simp add: round_half_even_def Let_def)
  ultimately show ?thesis by simp
qed

lemma round_magnitude_nonneg:
  assumes "0 < a"
  shows "0 \<le> round_magnitude a"
proof -
  have "0 < ulp a" by (simp add: ulp_def pow2_pos)
  with assms have "of_int 0 \<le> a / ulp a" by simp
  then have "0 \<le> round_half_even (a / ulp a)" by (rule round_half_even_ge)
  with \<open>0 < ulp a\<close> show ?thesis by (simp add: round_magnitude_def)
qed

text \<open>Rounding does not cross a number that is itself a multiple of its unit.\<close>

lemma round_magnitude_up:
  assumes "0 < d" and "d \<le> x" and "round_magnitude d = d"
  shows "d \<le> round_magnitude x"
proof -
  let ?ed = "max (binade d) (- 1022)" and ?ex = "max (binade x) (- 1022)"
  from assms have x: "0 < x" by simp
  have le: "?ed \<le> ?ex" using binade_mono [OF assms(1,2)] by simp
  have ud: "ulp d = pow2 (?ed - 52)" and ux: "ulp x = pow2 (?ex - 52)"
    by (simp_all add: ulp_def)
  have udpos: "0 < ulp d" and uxpos: "0 < ulp x" by (simp_all add: ulp_def pow2_pos)
  show ?thesis
  proof (cases "?ed = ?ex")
    case True
    then have u: "ulp x = ulp d" by (simp add: ud ux)
    let ?q = "round_half_even (d / ulp d)"
    from assms(3) have "of_int ?q * ulp d = d" by (simp add: round_magnitude_def)
    then have q: "of_int ?q = d / ulp d" using udpos by (simp add: field_simps)
    have "of_int ?q \<le> x / ulp d"
      using assms(2) udpos by (simp add: q divide_right_mono)
    then have "?q \<le> round_half_even (x / ulp d)" by (rule round_half_even_ge)
    then have "of_int ?q * ulp d \<le> of_int (round_half_even (x / ulp d)) * ulp d"
      using udpos by (simp add: mult_right_mono)
    then show ?thesis
      using \<open>of_int ?q * ulp d = d\<close> by (simp add: round_magnitude_def u)
  next
    case False
    with le have lt: "?ed < ?ex" by linarith
    then have ex: "?ex = binade x" by linarith
    have "pow2 52 * ulp x = pow2 ?ex"
      by (simp add: ux pow2_add [symmetric])
    moreover have "pow2 ?ex \<le> x" using binade_bounds(1) [OF x] by (simp add: ex)
    ultimately have "pow2 52 \<le> x / ulp x"
      using uxpos by (simp add: pos_le_divide_eq)
    moreover have "pow2 52 = of_int (2 ^ 52)" by (simp add: pow2_def)
    ultimately have "of_int (2 ^ 52) \<le> x / ulp x" by simp
    then have "2 ^ 52 \<le> round_half_even (x / ulp x)" by (rule round_half_even_ge)
    then have "(of_int (2 ^ 52) :: real) \<le> of_int (round_half_even (x / ulp x))"
      by (simp only: of_int_le_iff)
    then have "pow2 52 * ulp x \<le> round_magnitude x"
      using uxpos \<open>pow2 52 = of_int (2 ^ 52)\<close>
      by (simp add: round_magnitude_def mult_right_mono)
    then have "pow2 ?ex \<le> round_magnitude x"
      using \<open>pow2 52 * ulp x = pow2 ?ex\<close> by simp
    moreover have "d < pow2 ?ex"
    proof -
      have "d < pow2 (binade d + 1)" using assms(1) by (rule binade_bounds)
      also have "\<dots> \<le> pow2 ?ex" using lt by (intro pow2_mono) linarith
      finally show ?thesis .
    qed
    ultimately show ?thesis by simp
  qed
qed

lemma round_magnitude_down:
  assumes "0 < a" and "a \<le> b" and "round_magnitude b = b"
  shows "round_magnitude a \<le> b"
proof -
  let ?ea = "max (binade a) (- 1022)" and ?eb = "max (binade b) (- 1022)"
  from assms have b: "0 < b" by simp
  have le: "?ea \<le> ?eb" using binade_mono [OF assms(1,2)] by simp
  have ua: "ulp a = pow2 (?ea - 52)" and ub: "ulp b = pow2 (?eb - 52)"
    by (simp_all add: ulp_def)
  have uapos: "0 < ulp a" and ubpos: "0 < ulp b" by (simp_all add: ulp_def pow2_pos)
  show ?thesis
  proof (cases "?ea = ?eb")
    case True
    then have u: "ulp a = ulp b" by (simp add: ua ub)
    let ?q = "round_half_even (b / ulp b)"
    from assms(3) have qb: "of_int ?q * ulp b = b" by (simp add: round_magnitude_def)
    then have q: "of_int ?q = b / ulp b" using ubpos by (simp add: field_simps)
    have "a / ulp b \<le> of_int ?q"
      using assms(2) ubpos by (simp add: q divide_right_mono)
    then have "round_half_even (a / ulp b) \<le> ?q" by (rule round_half_even_le)
    then have "of_int (round_half_even (a / ulp b)) * ulp b \<le> of_int ?q * ulp b"
      using ubpos by (simp add: mult_right_mono)
    then show ?thesis
      using qb by (simp add: round_magnitude_def u)
  next
    case False
    with le have lt: "?ea < ?eb" by linarith
    then have eb: "?eb = binade b" by linarith
    have "53 + (?ea - 52) = ?ea + 1" by simp
    then have scale: "pow2 53 * ulp a = pow2 (?ea + 1)"
      by (simp only: ua pow2_add [symmetric])
    have "a < pow2 (binade a + 1)" using assms(1) by (rule binade_bounds)
    also have "\<dots> \<le> pow2 (?ea + 1)" by (intro pow2_mono) simp
    finally have "a < pow2 53 * ulp a" by (simp only: scale)
    then have "a / ulp a \<le> pow2 53"
      using uapos by (simp add: pos_divide_le_eq)
    moreover have p53: "pow2 53 = of_int (2 ^ 53)" by (simp add: pow2_def)
    ultimately have "a / ulp a \<le> of_int (2 ^ 53)" by simp
    then have "round_half_even (a / ulp a) \<le> 2 ^ 53" by (rule round_half_even_le)
    then have "(of_int (round_half_even (a / ulp a)) :: real) \<le> of_int (2 ^ 53)"
      by (simp only: of_int_le_iff)
    then have "round_magnitude a \<le> pow2 53 * ulp a"
      using uapos p53 by (simp add: round_magnitude_def mult_right_mono)
    also have "\<dots> = pow2 (?ea + 1)" by (rule scale)
    also have "\<dots> \<le> pow2 ?eb" using lt by (intro pow2_mono) linarith
    also have "\<dots> \<le> b" using binade_bounds(1) [OF b] by (simp add: eb)
    finally show ?thesis .
  qed
qed

lemma round_double_FiniteD:
  assumes "round_double d = Finite d"
  shows "0 < d \<Longrightarrow> round_magnitude d = d"
    and "d < 0 \<Longrightarrow> round_magnitude (- d) = - d \<and> - d < pow2 1024"
  using assms
  by (auto simp add: round_double_def Let_def split: if_splits)

text \<open>A sum rounds to no less than any double below it.\<close>

lemma round_double_ge_double:
  assumes "round_double d = Finite d" and "d \<le> x"
  shows "\<not> float_less (round_double x) d"
proof -
  consider "x = 0" | "0 < x" | "x < 0" by linarith
  then show ?thesis
  proof cases
    case 1
    with assms(2) show ?thesis by (simp add: round_double_def)
  next
    case 2
    have "d \<le> round_magnitude x"
    proof (cases "0 < d")
      case True
      from round_magnitude_up [OF True assms(2) round_double_FiniteD(1) [OF assms(1) True]]
      show ?thesis .
    next
      case False
      with round_magnitude_nonneg [OF 2] show ?thesis by simp
    qed
    with 2 show ?thesis by (simp add: round_double_def Let_def)
  next
    case 3
    with assms(2) have d: "d < 0" by simp
    from round_double_FiniteD(2) [OF assms(1) d]
    have grid: "round_magnitude (- d) = - d" and fin: "- d < pow2 1024" by simp_all
    from 3 assms(2) have "0 < - x" "- x \<le> - d" by simp_all
    from round_magnitude_down [OF this grid] have "round_magnitude (- x) \<le> - d" .
    with 3 fin show ?thesis by (simp add: round_double_def Let_def)
  qed
qed


lemma round_half_even_of_int: "round_half_even (of_int q) = q"
  by (simp add: round_half_even_def)

lemma round_magnitude_of_int:
  assumes "0 < n" and "n \<le> 2 ^ 53"
  shows "round_magnitude (of_int n) = of_int n"
proof -
  let ?a = "real_of_int n"
  let ?e = "binade ?a"
  from assms have a: "0 < ?a" "1 \<le> ?a" by simp_all
  have lo: "0 \<le> ?e"
  proof (rule ccontr)
    assume "\<not> 0 \<le> ?e"
    then have "?e + 1 \<le> 0" by simp
    then have "pow2 (?e + 1) \<le> pow2 0" by (rule pow2_mono)
    with binade_bounds(2) [OF a(1)] a(2) show False by (simp add: pow2_def)
  qed
  have hi: "?e \<le> 53"
  proof (rule ccontr)
    assume "\<not> ?e \<le> 53"
    then have "54 \<le> ?e" by simp
    then have "pow2 54 \<le> pow2 ?e" by (rule pow2_mono)
    with binade_bounds(1) [OF a(1)] have "pow2 54 \<le> ?a" by simp
    moreover have "pow2 54 = real_of_int (2 ^ 54)" by (simp add: pow2_def)
    ultimately have "(2 ^ 54 :: int) \<le> n" by (simp only: of_int_le_iff)
    with assms(2) show False by simp
  qed
  have u: "ulp ?a = pow2 (?e - 52)"
    using lo by (simp add: ulp_def)
  have upos: "0 < ulp ?a" by (simp add: u pow2_pos)
  have "\<exists>q. ?a / ulp ?a = of_int q"
  proof (cases "?e \<le> 52")
    case True
    have "pow2 (?e - 52) * pow2 (52 - ?e) = pow2 ((?e - 52) + (52 - ?e))"
      by (simp only: pow2_add)
    also have "\<dots> = 1" by (simp add: pow2_def)
    finally have "?a / ulp ?a = ?a * pow2 (52 - ?e)"
      using upos by (simp add: u field_simps)
    also have "pow2 (52 - ?e) = real_of_int (2 ^ nat (52 - ?e))"
      using True by (simp add: pow2_def)
    finally have "?a / ulp ?a = of_int (n * 2 ^ nat (52 - ?e))" by simp
    then show ?thesis ..
  next
    case False
    with hi have e: "?e = 53" by simp
    from binade_bounds(1) [OF a(1)] have "pow2 53 \<le> ?a" by (simp add: e)
    moreover have "pow2 53 = real_of_int (2 ^ 53)" by (simp add: pow2_def)
    ultimately have "(2 ^ 53 :: int) \<le> n" by (simp only: of_int_le_iff)
    with assms(2) have n: "n = 2 ^ 53" by simp
    have "ulp ?a = 2" by (simp add: u e pow2_def)
    then have "?a / ulp ?a = of_int (2 ^ 52)"
      by (simp add: n)
    then show ?thesis ..
  qed
  then obtain q where q: "?a / ulp ?a = of_int q" ..
  then have "of_int q * ulp ?a = ?a" using upos by (simp add: field_simps)
  then show ?thesis
    by (simp only: round_magnitude_def q round_half_even_of_int)
qed

lemma round_double_of_int:
  assumes "\<bar>n\<bar> \<le> 2 ^ 53"
  shows "round_double (of_int n) = Finite (of_int n)"
proof -
  have small: "real_of_int m < pow2 1024" if "m \<le> 2 ^ 53" for m
  proof -
    from that have "real_of_int m \<le> real_of_int (2 ^ 53)" by (simp only: of_int_le_iff)
    also have "\<dots> = pow2 53" by (simp add: pow2_def)
    also have "\<dots> \<le> pow2 1023" by (rule pow2_mono) simp
    also have "\<dots> < pow2 1024" by (simp add: pow2_def)
    finally show ?thesis .
  qed
  consider "n = 0" | "0 < n" | "n < 0" by linarith
  then show ?thesis
  proof cases
    case 1
    then show ?thesis by (simp add: round_double_def)
  next
    case 2
    with assms have "n \<le> 2 ^ 53" by simp
    from round_magnitude_of_int [OF 2 this] small [OF this] 2 show ?thesis
      by (simp add: round_double_def Let_def)
  next
    case 3
    with assms have le: "- n \<le> 2 ^ 53" and pos: "0 < - n" by simp_all
    from round_magnitude_of_int [OF pos le] small [OF le] 3 show ?thesis
      by (simp add: round_double_def Let_def)
  qed
qed

lemma float_of_int_exact:
  assumes "\<bar>n\<bar> \<le> 2 ^ 53"
  shows "float_of_int n = Inr (of_int n)"
  by (simp add: float_of_int_def round_double_of_int [OF assms])

section \<open>The setter of \<open>response_and_mtime\<close>\<close>

text \<open>
  C9. Assigning to \<open>response_and_mtime\<close> raises \<open>ValueError\<close> whenever the value is not an
  \<open>HttpResponse\<close> instance, so the sentinel \<open>None\<close> is never written through the setter;
  a valid assignment replaces both the stored response and the time stamp, the latter
  with the current time.
\<close>

theorem setter_rejects_non_response:
  "(\<not> isinstance_HttpResponse v \<longrightarrow> response_and_mtime_setter now c v = Inl ValueError)
   \<and> response_and_mtime_setter now c PyNone = Inl ValueError
   \<and> (isinstance_HttpResponse v \<longrightarrow>
        (\<exists>c'. response_and_mtime_setter now c v = Inr c'
              \<and> response_and_mtime c' = (v, now)))"
  by (simp add: response_and_mtime_setter_def response_and_mtime_def)

theorem setter_rejects_non_response_witness:
  "\<not> isinstance_HttpResponse (OtherObject ''x'')
   \<and> response_and_mtime_setter 7 \<lparr>response = PyNone, mtime = 1\<rparr> (OtherObject ''x'') = Inl ValueError
   \<and> isinstance_HttpResponse (HttpResponse 201 ''ok'')
   \<and> response_and_mtime_setter 7 \<lparr>response = PyNone, mtime = 1\<rparr> (HttpResponse 201 ''ok'')
       = Inr \<lparr>response = HttpResponse 201 ''ok'', mtime = 7\<rparr>"
  using setter_rejects_non_response [of "OtherObject ''x''" 7 "\<lparr>response = PyNone, mtime = 1\<rparr>"]
        setter_rejects_non_response [of "HttpResponse 201 ''ok''" 7 "\<lparr>response = PyNone, mtime = 1\<rparr>"]
  by (auto simp add: response_and_mtime_def)


section \<open>Reclaiming abandoned reservations\<close>

text \<open>
  C1. Take a store built with time-to-live \<open>T\<close> and let \<open>tf\<close> be \<open>T\<close> converted to a
  float. Writing the sentinel under a key at time \<open>t0\<close> succeeds (in any state the
  in-process store reaches from its constructor; in any configured cache) and leaves a
  reservation stamped \<open>t0\<close>. What \<open>retrieve_data\<close> then does at time \<open>now\<close> is decided
  by the sum \<open>t0 + tf\<close> as computed in double precision, not by the exact sum:

  \<^item> when the computed sum is not less than \<open>now\<close>, it answers \<open>(True, None)\<close> and changes
    nothing; this is the case at every time \<open>now\<close> (a double) that is not later than the
    exact sum \<open>t0 + tf\<close>;
  \<^item> when the computed sum is less than \<open>now\<close>, it answers \<open>(False, None)\<close> and removes
    the record, and every further \<open>retrieve_data\<close> answers \<open>(False, None)\<close> again.

  The conversion is exact (\<open>tf = T\<close>) for every \<open>T\<close> of magnitude at most \<open>2 ^ 53\<close>.

  For the shared-cache backend this holds of every state of the cache that still holds
  the reservation. When the cache has dropped the entry between the membership test and
  \<open>get\<close>, \<open>retrieve_data\<close> raises \<open>AttributeError\<close>. When \<open>T\<close> is too large for a
  float, \<open>retrieve_data\<close> on the reservation raises \<open>OverflowError\<close>.
\<close>

theorem reservation_ttl:
  "(float_of_int T = Inr tf \<longrightarrow>
      (\<exists>s1. Memory_store_data (Memory_run (MemoryKeyStorage_init T) calls) t0 ns k PyNone = Inr s1
         \<and> Memory_record s1 ns k = Some \<lparr>response = PyNone, mtime = t0\<rparr>
         \<and> (\<forall>now. \<not> float_less (float_add t0 tf) now \<longrightarrow>
                Memory_retrieve_data s1 now ns k = Inr (s1, (True, PyNone)))
         \<and> (\<forall>now. round_double now = Finite now \<longrightarrow> now \<le> t0 + tf \<longrightarrow>
                Memory_retrieve_data s1 now ns k = Inr (s1, (True, PyNone)))
         \<and> (\<forall>now. float_less (float_add t0 tf) now \<longrightarrow>
                (\<exists>s2. Memory_retrieve_data s1 now ns k = Inr (s2, (False, PyNone))
                   \<and> Memory_record s2 ns k = None
                   \<and> (\<forall>now'. Memory_retrieve_data s2 now' ns k = Inr (s2, (False, PyNone))))))
      \<and> (Cache_record cs' ns k = Some \<lparr>response = PyNone, mtime = t0\<rparr> \<longrightarrow>
           (\<forall>now. \<not> float_less (float_add t0 tf) now \<longrightarrow>
                Cache_retrieve_data T cs' False now ns k = Inr (cs', (True, PyNone)))
         \<and> (\<forall>now. round_double now = Finite now \<longrightarrow> now \<le> t0 + tf \<longrightarrow>
                Cache_retrieve_data T cs' False now ns k = Inr (cs', (True, PyNone)))
         \<and> (\<forall>now. float_less (float_add t0 tf) now \<longrightarrow>
                (\<exists>cs2. Cache_retrieve_data T cs' False now ns k = Inr (cs2, (False, PyNone))
                   \<and> Cache_record cs2 ns k = None
                   \<and> (\<forall>now' dropped. Cache_retrieve_data T cs2 dropped now' ns k
                                        = Inr (cs2, (False, PyNone)))))))
   \<and> (\<bar>T\<bar> \<le> 2 ^ 53 \<longrightarrow> float_of_int T = Inr (of_int T))
   \<and> (map_of cs ns \<noteq> None \<longrightarrow>
        (\<exists>cs1. Cache_store_data cs t0 ns k PyNone = Inr cs1
           \<and> Cache_record cs1 ns k = Some \<lparr>response = PyNone, mtime = t0\<rparr>))
   \<and> (Cache_record cs' ns k = Some \<lparr>response = PyNone, mtime = t0\<rparr> \<longrightarrow>
        (\<forall>now. Cache_retrieve_data T cs' True now ns k = Inl AttributeError))
   \<and> (float_of_int T = Inl OverflowError \<longrightarrow>
        (\<exists>s1. Memory_store_data (Memory_run (MemoryKeyStorage_init T) calls) t0 ns k PyNone = Inr s1
           \<and> (\<forall>now. Memory_retrieve_data s1 now ns k = Inl OverflowError)))"
proof -
  let ?s = "Memory_run (MemoryKeyStorage_init T) calls"
  let ?v = "\<lparr>response = PyNone, mtime = t0\<rparr>"
  have wf: "no_none_table ?s"
    by (simp add: no_none_table_run no_none_table_init)
  from store_succeeds [OF wf, of t0 ns k PyNone]
  obtain s1 t where st: "Memory_store_data ?s t0 ns k PyNone = Inr s1"
    and tt: "ttl s1 = T"
    and tab: "map_of (idempotency_key_cache_data s1) ns = Some (DictValue t)"
    and rec: "map_of t k = Some ?v"
    by (auto simp add: ttl_run_init)
  have rec1: "Memory_record s1 ns k = Some ?v"
    by (simp add: Memory_record_def tab rec)

  have memory: "\<exists>s1. Memory_store_data ?s t0 ns k PyNone = Inr s1
         \<and> Memory_record s1 ns k = Some ?v
         \<and> (\<forall>now. \<not> float_less (float_add t0 tf) now \<longrightarrow>
                Memory_retrieve_data s1 now ns k = Inr (s1, (True, PyNone)))
         \<and> (\<forall>now. round_double now = Finite now \<longrightarrow> now \<le> t0 + tf \<longrightarrow>
                Memory_retrieve_data s1 now ns k = Inr (s1, (True, PyNone)))
         \<and> (\<forall>now. float_less (float_add t0 tf) now \<longrightarrow>
                (\<exists>s2. Memory_retrieve_data s1 now ns k = Inr (s2, (False, PyNone))
                   \<and> Memory_record s2 ns k = None
                   \<and> (\<forall>now'. Memory_retrieve_data s2 now' ns k = Inr (s2, (False, PyNone)))))"
    if conv: "float_of_int T = Inr tf"
  proof -
    have test: "reservation_expired (ttl s1) now PyNone t0
                  = Inr (float_less (float_add t0 tf) now)" for now
      by (simp add: tt reservation_expired_sentinel [OF conv])
    have fresh: "\<forall>now. \<not> float_less (float_add t0 tf) now \<longrightarrow>
                   Memory_retrieve_data s1 now ns k = Inr (s1, (True, PyNone))"
      by (simp add: retrieve_unfold [OF tab] rec test)
    have stale: "\<exists>s2. Memory_retrieve_data s1 now ns k = Inr (s2, (False, PyNone))
                   \<and> Memory_record s2 ns k = None
                   \<and> (\<forall>now'. Memory_retrieve_data s2 now' ns k = Inr (s2, (False, PyNone)))"
      if late: "float_less (float_add t0 tf) now" for now
    proof -
      let ?s2 = "s1\<lparr>idempotency_key_cache_data :=
                      AList.update ns (DictValue (AList.delete k t))
                        (idempotency_key_cache_data s1)\<rparr>"
      have r1: "Memory_retrieve_data s1 now ns k = Inr (?s2, (False, PyNone))"
        using late by (simp add: retrieve_unfold [OF tab] rec test)
      have tab2: "map_of (idempotency_key_cache_data ?s2) ns
                    = Some (DictValue (AList.delete k t))"
        by (simp add: update_conv')
      have gone: "map_of (AList.delete k t) k = None"
        by (simp add: delete_conv')
      have r2: "Memory_retrieve_data ?s2 now' ns k = Inr (?s2, (False, PyNone))" for now'
        by (simp only: retrieve_unfold [OF tab2] gone option.case)
      have "Memory_record ?s2 ns k = None"
        by (simp add: Memory_record_def update_conv' gone)
      with r1 r2 show ?thesis by blast
    qed
    from fresh have early: "\<forall>now. round_double now = Finite now \<longrightarrow> now \<le> t0 + tf \<longrightarrow>
                   Memory_retrieve_data s1 now ns k = Inr (s1, (True, PyNone))"
      by (simp add: float_add_def round_double_ge_double)
    from st rec1 fresh early stale show ?thesis by blast
  qed

  have cache: "(\<forall>now. \<not> float_less (float_add t0 tf) now \<longrightarrow>
                Cache_retrieve_data T cs' False now ns k = Inr (cs', (True, PyNone)))
         \<and> (\<forall>now. round_double now = Finite now \<longrightarrow> now \<le> t0 + tf \<longrightarrow>
                Cache_retrieve_data T cs' False now ns k = Inr (cs', (True, PyNone)))
         \<and> (\<forall>now. float_less (float_add t0 tf) now \<longrightarrow>
                (\<exists>cs2. Cache_retrieve_data T cs' False now ns k = Inr (cs2, (False, PyNone))
                   \<and> Cache_record cs2 ns k = None
                   \<and> (\<forall>now' dropped. Cache_retrieve_data T cs2 dropped now' ns k
                                        = Inr (cs2, (False, PyNone)))))"
    if conv: "float_of_int T = Inr tf"
      and held: "Cache_record cs' ns k = Some ?v"
  proof -
    from Cache_record_SomeD [OF held]
    obtain c where c: "map_of cs' ns = Some c" and ck: "map_of c k = Some ?v" by blast
    have test: "reservation_expired T now PyNone t0
                  = Inr (float_less (float_add t0 tf) now)" for now
      by (rule reservation_expired_sentinel [OF conv])
    have fresh: "\<forall>now. \<not> float_less (float_add t0 tf) now \<longrightarrow>
                   Cache_retrieve_data T cs' False now ns k = Inr (cs', (True, PyNone))"
      by (simp add: cache_retrieve_unfold [OF c] ck test)
    have stale: "\<exists>cs2. Cache_retrieve_data T cs' False now ns k = Inr (cs2, (False, PyNone))
                   \<and> Cache_record cs2 ns k = None
                   \<and> (\<forall>now' dropped. Cache_retrieve_data T cs2 dropped now' ns k
                                        = Inr (cs2, (False, PyNone)))"
      if late: "float_less (float_add t0 tf) now" for now
    proof -
      let ?cs2 = "AList.update ns (AList.delete k c) cs'"
      have r1: "Cache_retrieve_data T cs' False now ns k = Inr (?cs2, (False, PyNone))"
        using late by (simp add: cache_retrieve_unfold [OF c] ck test)
      have tab2: "map_of ?cs2 ns = Some (AList.delete k c)"
        by (simp add: update_conv')
      have gone: "map_of (AList.delete k c) k = None"
        by (simp add: delete_conv')
      have r2: "Cache_retrieve_data T ?cs2 dropped now' ns k = Inr (?cs2, (False, PyNone))"
        for now' dropped
        by (rule cache_retrieve_absent [OF tab2 gone])
      have "Cache_record ?cs2 ns k = None"
        by (simp only: Cache_record_def tab2 gone option.case)
      with r1 r2 show ?thesis by blast
    qed
    from fresh have early: "\<forall>now. round_double now = Finite now \<longrightarrow> now \<le> t0 + tf \<longrightarrow>
                   Cache_retrieve_data T cs' False now ns k = Inr (cs', (True, PyNone))"
      by (simp add: float_add_def round_double_ge_double)
    from fresh early stale show ?thesis by blast
  qed

  have cache_store: "\<exists>cs1. Cache_store_data cs t0 ns k PyNone = Inr cs1
           \<and> Cache_record cs1 ns k = Some ?v"
    if "map_of cs ns \<noteq> None"
  proof -
    from that obtain c where c: "map_of cs ns = Some c" by blast
    let ?cs1 = "AList.update ns (AList.update k ?v c) cs"
    have "Cache_store_data cs t0 ns k PyNone = Inr ?cs1"
      by (rule cache_store_unfold [OF c])
    moreover have "Cache_record ?cs1 ns k = Some ?v"
      by (simp add: Cache_record_update update_conv')
    ultimately show ?thesis by blast
  qed

  have cache_dropped: "\<forall>now. Cache_retrieve_data T cs' True now ns k = Inl AttributeError"
    if held: "Cache_record cs' ns k = Some ?v"
  proof -
    from Cache_record_SomeD [OF held]
    obtain c where c: "map_of cs' ns = Some c" and ck: "map_of c k = Some ?v" by blast
    show ?thesis by (simp add: cache_retrieve_dropped [OF c ck])
  qed

  have overflow: "\<exists>s1. Memory_store_data ?s t0 ns k PyNone = Inr s1
           \<and> (\<forall>now. Memory_retrieve_data s1 now ns k = Inl OverflowError)"
    if ov: "float_of_int T = Inl OverflowError"
  proof -
    have "Memory_retrieve_data s1 now ns k = Inl OverflowError" for now
      by (simp add: retrieve_unfold [OF tab] rec tt reservation_expired_overflow [OF ov])
    with st show ?thesis by blast
  qed

  have exact: "float_of_int T = Inr (of_int T)" if "\<bar>T\<bar> \<le> 2 ^ 53"
    using that by (rule float_of_int_exact)

  from memory cache exact cache_store cache_dropped overflow show ?thesis by blast
qed

text \<open>
  The exact sum does not decide. With \<open>T = 1\<close> and a reservation stamped
  \<open>t0 = 2 ^ 53 + 2\<close>, the time \<open>now = 2 ^ 53 + 4\<close> is later than \<open>t0 + T\<close>, but the sum
  rounds to \<open>2 ^ 53 + 4\<close>, the comparison fails and the reservation stays.
\<close>

theorem reservation_ttl_counterexample:
  "Memory_store_data (MemoryKeyStorage_init 1) 9007199254740994 ''cache'' ''key1'' PyNone
     = Inr \<lparr>ttl = 1, idempotency_key_cache_data =
             [(''cache'', DictValue [(''key1'', \<lparr>response = PyNone, mtime = 9007199254740994\<rparr>)])]\<rparr>
   \<and> (9007199254740994 :: real) + of_int 1 < 9007199254740996
   \<and> Memory_retrieve_data \<lparr>ttl = 1, idempotency_key_cache_data =
             [(''cache'', DictValue [(''key1'', \<lparr>response = PyNone, mtime = 9007199254740994\<rparr>)])]\<rparr>
         9007199254740996 ''cache'' ''key1''
     = Inr (\<lparr>ttl = 1, idempotency_key_cache_data =
             [(''cache'', DictValue [(''key1'', \<lparr>response = PyNone, mtime = 9007199254740994\<rparr>)])]\<rparr>,
            (True, PyNone))"
proof -
  let ?s1 = "\<lparr>ttl = 1, idempotency_key_cache_data =
             [(''cache'', DictValue [(''key1'', \<lparr>response = PyNone, mtime = 9007199254740994\<rparr>)])]\<rparr>"
  have st: "Memory_store_data (MemoryKeyStorage_init 1) 9007199254740994 ''cache'' ''key1'' PyNone
              = Inr ?s1"
    by (simp add: Memory_store_data_def MemoryKeyStorage_init_def defaultdict_getitem_def
        CachedHttpResponse_init_def)
  have later: "(9007199254740994 :: real) + of_int 1 < 9007199254740996" by simp
  have conv: "float_of_int 1 = Inr 1" by (rule float_of_int_1)
  have sum: "float_add 9007199254740994 1 = Finite 9007199254740996" by (rule float_add_tie)
  have test: "reservation_expired 1 9007199254740996 PyNone 9007199254740994 = Inr False"
    by (simp add: reservation_expired_sentinel [OF conv] sum)
  have rt: "Memory_retrieve_data ?s1 9007199254740996 ''cache'' ''key1''
              = Inr (?s1, (True, PyNone))"
    by (simp add: Memory_retrieve_data_def defaultdict_getitem_def response_and_mtime_def test)
  show ?thesis by (intro conjI st later rt)
qed

theorem reservation_ttl_witness:
  "\<bar>5 :: int\<bar> \<le> 2 ^ 53
   \<and> float_of_int 5 = Inr 5
   \<and> \<not> float_less (float_add 0 5) 3
   \<and> float_less (float_add 0 5) 6
   \<and> round_double 4 = Finite 4
   \<and> (4 :: real) \<le> 0 + 5
   \<and> (\<exists>s1. Memory_store_data (Memory_run (MemoryKeyStorage_init 5) []) 0 ''cache'' ''key1'' PyNone
           = Inr s1
      \<and> Memory_retrieve_data s1 4 ''cache'' ''key1'' = Inr (s1, (True, PyNone)))
   \<and> Cache_retrieve_data 5 [(''cache'', [(''key1'', \<lparr>response = PyNone, mtime = 0\<rparr>)])]
        False 4 ''cache'' ''key1''
       = Inr ([(''cache'', [(''key1'', \<lparr>response = PyNone, mtime = 0\<rparr>)])], (True, PyNone))
   \<and> (\<exists>s1. Memory_store_data (Memory_run (MemoryKeyStorage_init 5) []) 0 ''cache'' ''key1'' PyNone
           = Inr s1
      \<and> Memory_retrieve_data s1 3 ''cache'' ''key1'' = Inr (s1, (True, PyNone))
      \<and> (\<exists>s2. Memory_retrieve_data s1 6 ''cache'' ''key1'' = Inr (s2, (False, PyNone))
            \<and> Memory_retrieve_data s2 7 ''cache'' ''key1'' = Inr (s2, (False, PyNone))))
   \<and> map_of [(''cache'', []::table)] ''cache'' \<noteq> None
   \<and> (\<exists>cs1. Cache_store_data [(''cache'', [])] 0 ''cache'' ''key1'' PyNone = Inr cs1)
   \<and> Cache_record [(''cache'', [(''key1'', \<lparr>response = PyNone, mtime = 0\<rparr>)])] ''cache'' ''key1''
       = Some \<lparr>response = PyNone, mtime = 0\<rparr>
   \<and> Cache_retrieve_data 5 [(''cache'', [(''key1'', \<lparr>response = PyNone, mtime = 0\<rparr>)])]
        False 3 ''cache'' ''key1''
       = Inr ([(''cache'', [(''key1'', \<lparr>response = PyNone, mtime = 0\<rparr>)])], (True, PyNone))
   \<and> (\<exists>cs2. Cache_retrieve_data 5 [(''cache'', [(''key1'', \<lparr>response = PyNone, mtime = 0\<rparr>)])]
               False 6 ''cache'' ''key1'' = Inr (cs2, (False, PyNone))
         \<and> Cache_retrieve_data 5 cs2 False 7 ''cache'' ''key1'' = Inr (cs2, (False, PyNone)))
   \<and> Cache_retrieve_data 5 [(''cache'', [(''key1'', \<lparr>response = PyNone, mtime = 0\<rparr>)])]
        True 3 ''cache'' ''key1'' = Inl AttributeError
   \<and> float_of_int (2 ^ 1024) = Inl OverflowError
   \<and> (\<exists>s1. Memory_store_data (Memory_run (MemoryKeyStorage_init (2 ^ 1024)) []) 0
              ''cache'' ''key1'' PyNone = Inr s1
         \<and> Memory_retrieve_data s1 3 ''cache'' ''key1'' = Inl OverflowError)"
proof -
  let ?cs' = "[(''cache'', [(''key1'', \<lparr>response = PyNone, mtime = 0\<rparr>)])]"
  have small: "\<bar>5 :: int\<bar> \<le> 2 ^ 53" by simp
  have dbl: "round_double 4 = Finite 4"
    using round_double_of_int [of 4] by simp
  have before: "(4 :: real) \<le> 0 + 5" by simp
  note t = reservation_ttl [of 5 5 "[]" 0 "''cache''" "''key1''"
      "[(''cache'', [(''key1'', \<lparr>response = PyNone, mtime = 0\<rparr>)])]" "[(''cache'', [])]"]
  from t small have conv: "float_of_int 5 = Inr 5" by simp
  have sum: "float_add 0 5 = Finite 5" by (rule float_add_0_5)
  have early: "\<not> float_less (float_add 0 5) 3" by (simp add: sum)
  have late: "float_less (float_add 0 5) 6" by (simp add: sum)
  have conf: "map_of [(''cache'', []::table)] ''cache'' \<noteq> None" by simp
  have held: "Cache_record ?cs' ''cache'' ''key1'' = Some \<lparr>response = PyNone, mtime = 0\<rparr>"
    by (simp add: Cache_record_def)
  have big: "float_of_int (2 ^ 1024) = Inl OverflowError"
    by (rule float_of_int_overflow) (rule order_refl)
  note u = reservation_ttl [of "2 ^ 1024" 0 "[]" 0 "''cache''" "''key1''" "[]" "[]"]
  from t conv dbl before
  have r0: "\<exists>s1. Memory_store_data (Memory_run (MemoryKeyStorage_init 5) []) 0 ''cache'' ''key1'' PyNone
           = Inr s1
      \<and> Memory_retrieve_data s1 4 ''cache'' ''key1'' = Inr (s1, (True, PyNone))"
    by blast
  from t conv held dbl before
  have r0': "Cache_retrieve_data 5 ?cs' False 4 ''cache'' ''key1'' = Inr (?cs', (True, PyNone))"
    by blast
  from t conv early late
  have r1: "\<exists>s1. Memory_store_data (Memory_run (MemoryKeyStorage_init 5) []) 0 ''cache'' ''key1'' PyNone
           = Inr s1
      \<and> Memory_retrieve_data s1 3 ''cache'' ''key1'' = Inr (s1, (True, PyNone))
      \<and> (\<exists>s2. Memory_retrieve_data s1 6 ''cache'' ''key1'' = Inr (s2, (False, PyNone))
            \<and> Memory_retrieve_data s2 7 ''cache'' ''key1'' = Inr (s2, (False, PyNone)))"
    by blast
  from t conf
  have r2: "\<exists>cs1. Cache_store_data [(''cache'', [])] 0 ''cache'' ''key1'' PyNone = Inr cs1"
    by blast
  from t conv held early
  have r3: "Cache_retrieve_data 5 ?cs' False 3 ''cache'' ''key1'' = Inr (?cs', (True, PyNone))"
    by blast
  from t conv held late
  have r4: "\<exists>cs2. Cache_retrieve_data 5 ?cs' False 6 ''cache'' ''key1'' = Inr (cs2, (False, PyNone))
         \<and> Cache_retrieve_data 5 cs2 False 7 ''cache'' ''key1'' = Inr (cs2, (False, PyNone))"
    by blast
  from t held
  have r5: "Cache_retrieve_data 5 ?cs' True 3 ''cache'' ''key1'' = Inl AttributeError"
    by blast
  from u big
  have r6: "\<exists>s1. Memory_store_data (Memory_run (MemoryKeyStorage_init (2 ^ 1024)) []) 0
              ''cache'' ''key1'' PyNone = Inr s1
         \<and> Memory_retrieve_data s1 3 ''cache'' ''key1'' = Inl OverflowError"
    by blast
  show ?thesis
    by (intro conjI small conv early late dbl before r0 r0' r1 conf r2 held r3 r4 r5 big r6)
qed

section \<open>The payload of a record under a sequence of calls\<close>

text \<open>
  C2 (as amended). Take any sequence of \<open>store_data\<close>, \<open>retrieve_data\<close> and
  \<open>delete_data\<close> calls, interleaved in the shared cache with entries that the cache
  drops on its own, in which \<open>store_data\<close> is never called with the sentinel on the
  key. If the key holds a completed response before the sequence, then after it the record
  is either gone or still holds a completed response. This holds for both backends.
\<close>

theorem payload_never_reverts:
  assumes "\<forall>tc\<in>set calls. \<not> reserves_key ns k (snd tc)"
  shows "(Memory_record s ns k = Some c \<and> response c \<noteq> PyNone \<longrightarrow>
            (case Memory_record (Memory_run s calls) ns k of
               None \<Rightarrow> True | Some c' \<Rightarrow> response c' \<noteq> PyNone))
       \<and> (Cache_record cs ns k = Some c \<and> response c \<noteq> PyNone \<longrightarrow>
            (case Cache_record (Cache_run T cs calls) ns k of
               None \<Rightarrow> True | Some c' \<Rightarrow> response c' \<noteq> PyNone))"
proof (intro conjI impI)
  assume "Memory_record s ns k = Some c \<and> response c \<noteq> PyNone"
  then have "\<forall>v. Memory_record s ns k = Some v \<longrightarrow> response v \<noteq> PyNone" by simp
  from Memory_run_no_sentinel [OF assms this]
  show "case Memory_record (Memory_run s calls) ns k of
          None \<Rightarrow> True | Some c' \<Rightarrow> response c' \<noteq> PyNone"
    by (simp split: option.splits)
next
  assume "Cache_record cs ns k = Some c \<and> response c \<noteq> PyNone"
  then have "\<forall>v. Cache_record cs ns k = Some v \<longrightarrow> response v \<noteq> PyNone" by simp
  from Cache_run_no_sentinel [OF assms this]
  show "case Cache_record (Cache_run T cs calls) ns k of
          None \<Rightarrow> True | Some c' \<Rightarrow> response c' \<noteq> PyNone"
    by (simp split: option.splits)
qed


text \<open>
  The store itself does not enforce the order of the transitions: \<open>store_data\<close>
  overwrites without looking at the old record, so writing the sentinel over a completed
  response leaves a record that is a reservation again.
\<close>

theorem payload_reverts_counterexample:
  "Memory_record (Memory_run (MemoryKeyStorage_init 5)
       [(0, Store ''cache'' ''key1'' (HttpResponse 201 ''a''))]) ''cache'' ''key1''
     = Some \<lparr>response = HttpResponse 201 ''a'', mtime = 0\<rparr>
   \<and> Memory_record (Memory_run (MemoryKeyStorage_init 5)
       [(0, Store ''cache'' ''key1'' (HttpResponse 201 ''a'')),
        (1, Store ''cache'' ''key1'' PyNone)]) ''cache'' ''key1''
     = Some \<lparr>response = PyNone, mtime = 1\<rparr>"
proof -
  let ?s1 = "\<lparr>ttl = 5, idempotency_key_cache_data =
     [(''cache'', DictValue [(''key1'', \<lparr>response = HttpResponse 201 ''a'', mtime = 0\<rparr>)])]\<rparr>"
  let ?s2 = "\<lparr>ttl = 5, idempotency_key_cache_data =
     [(''cache'', DictValue [(''key1'', \<lparr>response = PyNone, mtime = 1\<rparr>)])]\<rparr>"
  have first: "Memory_store_data (MemoryKeyStorage_init 5) 0 ''cache'' ''key1''
                 (HttpResponse 201 ''a'') = Inr ?s1"
    by (simp add: Memory_store_data_def MemoryKeyStorage_init_def defaultdict_getitem_def
        CachedHttpResponse_init_def)
  have second: "Memory_store_data ?s1 1 ''cache'' ''key1'' PyNone = Inr ?s2"
    by (simp add: Memory_store_data_def defaultdict_getitem_def CachedHttpResponse_init_def)
  show ?thesis
    by (simp add: Memory_run_def first second Memory_record_def)
qed


theorem payload_never_reverts_witness:
  "(\<not> reserves_key ''cache'' ''key1'' (Retrieve ''cache'' ''key1'')
      \<and> \<not> reserves_key ''cache'' ''key1'' (Store ''cache'' ''key1'' (HttpResponse 200 ''b'')))
   \<and> (Memory_record \<lparr>ttl = 5, idempotency_key_cache_data =
          [(''cache'', DictValue [(''key1'', \<lparr>response = HttpResponse 201 ''a'', mtime = 0\<rparr>)])]\<rparr>
        ''cache'' ''key1'' = Some \<lparr>response = HttpResponse 201 ''a'', mtime = 0\<rparr>
      \<and> response \<lparr>response = HttpResponse 201 ''a'', mtime = 0\<rparr> \<noteq> PyNone)
   \<and> (case Memory_record (Memory_run \<lparr>ttl = 5, idempotency_key_cache_data =
          [(''cache'', DictValue [(''key1'', \<lparr>response = HttpResponse 201 ''a'', mtime = 0\<rparr>)])]\<rparr>
          [(1, Retrieve ''cache'' ''key1''), (2, Store ''cache'' ''key1'' (HttpResponse 200 ''b''))])
          ''cache'' ''key1'' of None \<Rightarrow> True | Some c' \<Rightarrow> response c' \<noteq> PyNone)
   \<and> (Cache_record [(''cache'', [(''key1'', \<lparr>response = HttpResponse 201 ''a'', mtime = 0\<rparr>)])]
        ''cache'' ''key1'' = Some \<lparr>response = HttpResponse 201 ''a'', mtime = 0\<rparr>
      \<and> response \<lparr>response = HttpResponse 201 ''a'', mtime = 0\<rparr> \<noteq> PyNone)
   \<and> (case Cache_record (Cache_run 5
          [(''cache'', [(''key1'', \<lparr>response = HttpResponse 201 ''a'', mtime = 0\<rparr>)])]
          [(1, Retrieve ''cache'' ''key1''), (2, Store ''cache'' ''key1'' (HttpResponse 200 ''b''))])
          ''cache'' ''key1'' of None \<Rightarrow> True | Some c' \<Rightarrow> response c' \<noteq> PyNone)"
proof -
  let ?calls = "[(1::real, Retrieve ''cache'' ''key1''),
                 (2, Store ''cache'' ''key1'' (HttpResponse 200 ''b''))]"
  let ?c = "\<lparr>response = HttpResponse 201 ''a'', mtime = 0\<rparr>"
  let ?s = "\<lparr>ttl = 5, idempotency_key_cache_data = [(''cache'', DictValue [(''key1'', ?c)])]\<rparr>"
  let ?cs = "[(''cache'', [(''key1'', ?c)])]"
  have h: "\<forall>tc\<in>set ?calls. \<not> reserves_key ''cache'' ''key1'' (snd tc)" by simp
  have m: "Memory_record ?s ''cache'' ''key1'' = Some ?c \<and> response ?c \<noteq> PyNone"
    by (simp add: Memory_record_def)
  have c: "Cache_record ?cs ''cache'' ''key1'' = Some ?c \<and> response ?c \<noteq> PyNone"
    by (simp add: Cache_record_def)
  note t = payload_never_reverts [OF h, of ?s ?c ?cs 5]
  from t m have r1: "case Memory_record (Memory_run ?s ?calls) ''cache'' ''key1'' of
                       None \<Rightarrow> True | Some c' \<Rightarrow> response c' \<noteq> PyNone"
    by (rule conjunct1 [THEN mp])
  from t c have r2: "case Cache_record (Cache_run 5 ?cs ?calls) ''cache'' ''key1'' of
                       None \<Rightarrow> True | Some c' \<Rightarrow> response c' \<noteq> PyNone"
    by (rule conjunct2 [THEN mp])
  have h': "\<not> reserves_key ''cache'' ''key1'' (Retrieve ''cache'' ''key1'')
      \<and> \<not> reserves_key ''cache'' ''key1'' (Store ''cache'' ''key1'' (HttpResponse 200 ''b''))"
    by simp
  show ?thesis by (intro conjI h' m r1 c r2)
qed

section \<open>Completed records\<close>



section \<open>Keys that were never stored\<close>

text \<open>
  C4. In the in-process store, after any sequence of calls from the constructor that never
  stores under a given namespace and key, \<open>retrieve_data\<close> answers \<open>(False, None)\<close> for
  them. On a namespace that the store has never seen, \<open>retrieve_data\<close> and
  \<open>delete_data\<close> return without an error, \<open>retrieve_data\<close> answers \<open>(False, None)\<close>,
  and no record of the store changes, as with an empty table.
\<close>

theorem never_stored_is_absent:
  "((\<forall>tc\<in>set calls. \<not> stores_key ns k (snd tc)) \<longrightarrow>
      (\<exists>s'. Memory_retrieve_data (Memory_run (MemoryKeyStorage_init T) calls) now ns k
               = Inr (s', (False, PyNone))))
   \<and> (map_of (idempotency_key_cache_data s) ns = None \<longrightarrow>
        (\<exists>s'. Memory_retrieve_data s now ns k = Inr (s', (False, PyNone))
            \<and> (\<forall>ns' k'. Memory_record s' ns' k' = Memory_record s ns' k'))
      \<and> (\<exists>s'. Memory_delete_data s ns k = Inr s'
            \<and> (\<forall>ns' k'. Memory_record s' ns' k' = Memory_record s ns' k')))"
proof (intro conjI impI)
  assume "\<forall>tc\<in>set calls. \<not> stores_key ns k (snd tc)"
  from Memory_run_keeps_absent [OF this Memory_record_init]
  have "Memory_record (Memory_run (MemoryKeyStorage_init T) calls) ns k = None" .
  from retrieve_absent [OF this]
  show "\<exists>s'. Memory_retrieve_data (Memory_run (MemoryKeyStorage_init T) calls) now ns k
               = Inr (s', (False, PyNone))"
    by blast
next
  assume "map_of (idempotency_key_cache_data s) ns = None"
  then have "Memory_record s ns k = None" by (rule Memory_record_unseen)
  then show "\<exists>s'. Memory_retrieve_data s now ns k = Inr (s', (False, PyNone))
            \<and> (\<forall>ns' k'. Memory_record s' ns' k' = Memory_record s ns' k')"
    by (rule retrieve_absent)
next
  assume "map_of (idempotency_key_cache_data s) ns = None"
  then have "Memory_record s ns k = None" by (rule Memory_record_unseen)
  then show "\<exists>s'. Memory_delete_data s ns k = Inr s'
            \<and> (\<forall>ns' k'. Memory_record s' ns' k' = Memory_record s ns' k')"
    by (rule delete_absent)
qed

theorem never_stored_is_absent_witness:
  "\<not> stores_key ''cache'' ''key1'' (Store ''cache'' ''key2'' PyNone)
   \<and> \<not> stores_key ''cache'' ''key1'' (Delete ''cache'' ''key1'')
   \<and> (\<exists>s'. Memory_retrieve_data
              (Memory_run (MemoryKeyStorage_init 5)
                 [(0, Store ''cache'' ''key2'' PyNone), (1, Delete ''cache'' ''key1'')])
              2 ''cache'' ''key1'' = Inr (s', (False, PyNone)))
   \<and> map_of (idempotency_key_cache_data (MemoryKeyStorage_init 5)) ''other'' = None
   \<and> (\<exists>s'. Memory_retrieve_data (MemoryKeyStorage_init 5) 2 ''other'' ''key1''
              = Inr (s', (False, PyNone)))
   \<and> (\<exists>s'. Memory_delete_data (MemoryKeyStorage_init 5) ''other'' ''key1'' = Inr s')"
proof -
  have q: "\<forall>tc\<in>set [(0::real, Store ''cache'' ''key2'' PyNone), (1, Delete ''cache'' ''key1'')].
             \<not> stores_key ''cache'' ''key1'' (snd tc)" by simp
  have u: "map_of (idempotency_key_cache_data (MemoryKeyStorage_init 5)) ''other'' = None"
    by (simp add: MemoryKeyStorage_init_def)
  from never_stored_is_absent [of "[(0, Store ''cache'' ''key2'' PyNone), (1, Delete ''cache'' ''key1'')]"
      "''cache''" "''key1''" 5 2 "MemoryKeyStorage_init 5"]
    never_stored_is_absent [of "[]" "''other''" "''key1''" 5 2 "MemoryKeyStorage_init 5"]
    q u
  show ?thesis by simp blast
qed

section \<open>Overwriting a record\<close>

text \<open>
  C5. \<open>store_data\<close> on a key that already holds a record succeeds, and the record found
  afterwards is exactly the one \<open>CachedHttpResponse.__init__\<close> builds from the new
  response and the time of the call: nothing of the old record survives, and the time
  stamp is that of the new call. Every other record is as before. Both backends.
\<close>

theorem store_overwrites:
  "(Memory_record s ns k = Some old \<longrightarrow>
      (\<exists>s'. Memory_store_data s now ns k r = Inr s'
          \<and> Memory_record s' ns k = Some (CachedHttpResponse_init now r)
          \<and> response_and_mtime (CachedHttpResponse_init now r) = (r, now)
          \<and> (\<forall>ns' k'. \<not> (ns' = ns \<and> k' = k) \<longrightarrow>
                 Memory_record s' ns' k' = Memory_record s ns' k')))
   \<and> (Cache_record cs ns k = Some old \<longrightarrow>
      (\<exists>cs'. Cache_store_data cs now ns k r = Inr cs'
          \<and> Cache_record cs' ns k = Some (CachedHttpResponse_init now r)
          \<and> (\<forall>ns' k'. \<not> (ns' = ns \<and> k' = k) \<longrightarrow>
                 Cache_record cs' ns' k' = Cache_record cs ns' k')))"
proof (intro conjI impI)
  assume "Memory_record s ns k = Some old"
  from Memory_record_SomeD [OF this]
  obtain t where t: "map_of (idempotency_key_cache_data s) ns = Some (DictValue t)" by blast
  from store_existing [OF t, of now k r]
  obtain s' where st: "Memory_store_data s now ns k r = Inr s'" by blast
  have "Memory_record s' ns k = Some (CachedHttpResponse_init now r)"
    by (simp add: store_record(1) [OF st] CachedHttpResponse_init_def)
  moreover have "response_and_mtime (CachedHttpResponse_init now r) = (r, now)"
    by (simp add: response_and_mtime_def CachedHttpResponse_init_def)
  moreover have "\<forall>ns' k'. \<not> (ns' = ns \<and> k' = k) \<longrightarrow>
                   Memory_record s' ns' k' = Memory_record s ns' k'"
    by (simp add: store_record(1) [OF st])
  ultimately show "\<exists>s'. Memory_store_data s now ns k r = Inr s'
          \<and> Memory_record s' ns k = Some (CachedHttpResponse_init now r)
          \<and> response_and_mtime (CachedHttpResponse_init now r) = (r, now)
          \<and> (\<forall>ns' k'. \<not> (ns' = ns \<and> k' = k) \<longrightarrow>
                 Memory_record s' ns' k' = Memory_record s ns' k')"
    using st by blast
next
  assume "Cache_record cs ns k = Some old"
  from Cache_record_SomeD [OF this]
  obtain c where c: "map_of cs ns = Some c" by blast
  let ?cs' = "AList.update ns (AList.update k \<lparr>response = r, mtime = now\<rparr> c) cs"
  have st: "Cache_store_data cs now ns k r = Inr ?cs'"
    by (rule cache_store_unfold [OF c])
  have "Cache_record ?cs' ns k = Some (CachedHttpResponse_init now r)"
    by (simp add: Cache_record_update update_conv' CachedHttpResponse_init_def)
  moreover have "\<forall>ns' k'. \<not> (ns' = ns \<and> k' = k) \<longrightarrow>
                   Cache_record ?cs' ns' k' = Cache_record cs ns' k'"
    using c by (auto simp add: Cache_record_update update_conv' Cache_record_def)
  ultimately show "\<exists>cs'. Cache_store_data cs now ns k r = Inr cs'
          \<and> Cache_record cs' ns k = Some (CachedHttpResponse_init now r)
          \<and> (\<forall>ns' k'. \<not> (ns' = ns \<and> k' = k) \<longrightarrow>
                 Cache_record cs' ns' k' = Cache_record cs ns' k')"
    using st by blast
qed

theorem store_overwrites_witness:
  "Memory_record \<lparr>ttl = 5, idempotency_key_cache_data =
        [(''cache'', DictValue [(''key1'', \<lparr>response = HttpResponse 201 ''a'', mtime = 0\<rparr>)])]\<rparr>
      ''cache'' ''key1'' = Some \<lparr>response = HttpResponse 201 ''a'', mtime = 0\<rparr>
   \<and> (\<exists>s'. Memory_store_data \<lparr>ttl = 5, idempotency_key_cache_data =
        [(''cache'', DictValue [(''key1'', \<lparr>response = HttpResponse 201 ''a'', mtime = 0\<rparr>)])]\<rparr>
          9 ''cache'' ''key1'' (HttpResponse 200 ''b'') = Inr s'
        \<and> Memory_record s' ''cache'' ''key1''
            = Some \<lparr>response = HttpResponse 200 ''b'', mtime = 9\<rparr>)
   \<and> Cache_record [(''cache'', [(''key1'', \<lparr>response = HttpResponse 201 ''a'', mtime = 0\<rparr>)])]
      ''cache'' ''key1'' = Some \<lparr>response = HttpResponse 201 ''a'', mtime = 0\<rparr>
   \<and> (\<exists>cs'. Cache_store_data
          [(''cache'', [(''key1'', \<lparr>response = HttpResponse 201 ''a'', mtime = 0\<rparr>)])]
          9 ''cache'' ''key1'' (HttpResponse 200 ''b'') = Inr cs'
        \<and> Cache_record cs' ''cache'' ''key1''
            = Some \<lparr>response = HttpResponse 200 ''b'', mtime = 9\<rparr>)"
proof -
  let ?old = "\<lparr>response = HttpResponse 201 ''a'', mtime = 0\<rparr>"
  let ?s = "\<lparr>ttl = 5, idempotency_key_cache_data = [(''cache'', DictValue [(''key1'', ?old)])]\<rparr>"
  let ?cs = "[(''cache'', [(''key1'', ?old)])]"
  have m: "Memory_record ?s ''cache'' ''key1'' = Some ?old"
    by (simp add: Memory_record_def)
  have c: "Cache_record ?cs ''cache'' ''key1'' = Some ?old"
    by (simp add: Cache_record_def)
  note t = store_overwrites [of ?s "''cache''" "''key1''" ?old 9 "HttpResponse 200 ''b''" ?cs]
  from t m have r1: "\<exists>s'. Memory_store_data ?s 9 ''cache'' ''key1'' (HttpResponse 200 ''b'') = Inr s'
        \<and> Memory_record s' ''cache'' ''key1''
            = Some \<lparr>response = HttpResponse 200 ''b'', mtime = 9\<rparr>"
    by (auto simp add: CachedHttpResponse_init_def)
  from t c have r2: "\<exists>cs'. Cache_store_data ?cs 9 ''cache'' ''key1'' (HttpResponse 200 ''b'') = Inr cs'
        \<and> Cache_record cs' ''cache'' ''key1''
            = Some \<lparr>response = HttpResponse 200 ''b'', mtime = 9\<rparr>"
    by (auto simp add: CachedHttpResponse_init_def)
  show ?thesis by (intro conjI m c r1 r2)
qed

section \<open>Deleting\<close>

text \<open>
  C6. \<open>delete_data\<close> never raises in the in-process store, whether or not the key
  exists; afterwards the key holds no record and \<open>retrieve_data\<close> answers
  \<open>(False, None)\<close> without changing the state, and deleting a key that held no record
  changes no record. The same holds for the shared-cache backend on every configured
  cache.
\<close>

theorem delete_idempotent:
  "(\<exists>s'. Memory_delete_data s ns k = Inr s'
        \<and> Memory_record s' ns k = None
        \<and> Memory_retrieve_data s' now ns k = Inr (s', (False, PyNone))
        \<and> (Memory_record s ns k = None \<longrightarrow>
              (\<forall>ns' k'. Memory_record s' ns' k' = Memory_record s ns' k')))
   \<and> (map_of cs ns \<noteq> None \<longrightarrow>
        (\<exists>cs'. Cache_delete_data cs ns k = Inr cs'
           \<and> Cache_record cs' ns k = None
           \<and> Cache_retrieve_data T cs' dropped now ns k = Inr (cs', (False, PyNone))
           \<and> (Cache_record cs ns k = None \<longrightarrow> cs' = cs)))"
proof (intro conjI impI)
  obtain s' where d: "Memory_delete_data s ns k = Inr s'"
    using delete_total by blast
  have gone: "Memory_record s' ns k = None"
    by (simp add: delete_record(1) [OF d])
  have again: "Memory_retrieve_data s' now ns k = Inr (s', (False, PyNone))"
    by (rule retrieve_absent_seen [OF delete_record(3) [OF d] gone])
  have frame: "Memory_record s ns k = None \<longrightarrow>
                 (\<forall>ns' k'. Memory_record s' ns' k' = Memory_record s ns' k')"
    by (simp add: delete_record(1) [OF d])
  show "\<exists>s'. Memory_delete_data s ns k = Inr s'
        \<and> Memory_record s' ns k = None
        \<and> Memory_retrieve_data s' now ns k = Inr (s', (False, PyNone))
        \<and> (Memory_record s ns k = None \<longrightarrow>
              (\<forall>ns' k'. Memory_record s' ns' k' = Memory_record s ns' k'))"
    by (rule exI [of _ s']) (intro conjI d gone again frame)
next
  assume "map_of cs ns \<noteq> None"
  then obtain c where c: "map_of cs ns = Some c" by blast
  have rec: "Cache_record cs ns k = map_of c k"
    by (simp add: Cache_record_def c)
  show "\<exists>cs'. Cache_delete_data cs ns k = Inr cs'
           \<and> Cache_record cs' ns k = None
           \<and> Cache_retrieve_data T cs' dropped now ns k = Inr (cs', (False, PyNone))
           \<and> (Cache_record cs ns k = None \<longrightarrow> cs' = cs)"
  proof (cases "map_of c k")
    case None
    then have "Cache_delete_data cs ns k = Inr cs"
      by (simp add: cache_delete_unfold [OF c])
    moreover have "Cache_retrieve_data T cs dropped now ns k = Inr (cs, (False, PyNone))"
      by (rule cache_retrieve_absent [OF c None])
    ultimately show ?thesis using None rec by simp
  next
    case (Some v)
    let ?cs' = "AList.update ns (AList.delete k c) cs"
    have d: "Cache_delete_data cs ns k = Inr ?cs'"
      by (simp add: cache_delete_unfold [OF c] Some)
    have c': "map_of ?cs' ns = Some (AList.delete k c)"
      by (simp add: update_conv')
    have gone: "map_of (AList.delete k c) k = None"
      by (simp add: delete_conv')
    have "Cache_retrieve_data T ?cs' dropped now ns k = Inr (?cs', (False, PyNone))"
      by (rule cache_retrieve_absent [OF c' gone])
    moreover have "Cache_record ?cs' ns k = None"
      by (simp only: Cache_record_def c' gone option.case)
    ultimately show ?thesis using d rec Some by simp
  qed
qed

theorem delete_idempotent_witness:
  "map_of [(''cache'', [(''key1'', \<lparr>response = PyNone, mtime = 0\<rparr>)])] ''cache'' \<noteq> None
   \<and> Memory_record (MemoryKeyStorage_init 5) ''cache'' ''key1'' = None
   \<and> (\<exists>s'. Memory_delete_data (MemoryKeyStorage_init 5) ''cache'' ''key1'' = Inr s'
         \<and> Memory_retrieve_data s' 3 ''cache'' ''key1'' = Inr (s', (False, PyNone)))
   \<and> (\<exists>cs'. Cache_delete_data [(''cache'', [(''key1'', \<lparr>response = PyNone, mtime = 0\<rparr>)])]
                ''cache'' ''key1'' = Inr cs'
         \<and> Cache_retrieve_data 5 cs' False 3 ''cache'' ''key1'' = Inr (cs', (False, PyNone)))"
proof -
  let ?cs = "[(''cache'', [(''key1'', \<lparr>response = PyNone, mtime = 0\<rparr>)])]"
  have conf: "map_of ?cs ''cache'' \<noteq> None" by simp
  have absent: "Memory_record (MemoryKeyStorage_init 5) ''cache'' ''key1'' = None"
    by (simp add: Memory_record_def MemoryKeyStorage_init_def)
  note t = delete_idempotent [of "MemoryKeyStorage_init 5" "''cache''" "''key1''" 3 ?cs 5 False]
  from t have r1: "\<exists>s'. Memory_delete_data (MemoryKeyStorage_init 5) ''cache'' ''key1'' = Inr s'
         \<and> Memory_retrieve_data s' 3 ''cache'' ''key1'' = Inr (s', (False, PyNone))"
    by blast
  from t conf have r2: "\<exists>cs'. Cache_delete_data ?cs ''cache'' ''key1'' = Inr cs'
         \<and> Cache_retrieve_data 5 cs' False 3 ''cache'' ''key1'' = Inr (cs', (False, PyNone))"
    by blast
  show ?thesis by (intro conjI conf absent r1 r2)
qed

section \<open>Namespaces do not interfere\<close>

text \<open>
  C7. In the in-process store, for distinct namespaces \<open>ns1\<close> and \<open>ns2\<close>: a
  \<open>store_data\<close> under \<open>ns1\<close> leaves the outcome of \<open>retrieve_data\<close> under \<open>ns2\<close>
  as it was, for every key and time: the same answer, or the same error where the
  time-to-live is too large for a float; and with a time-to-live that converts to a
  float both calls return, with the same answer. Neither the \<open>store_data\<close> nor a
  \<open>delete_data\<close> under \<open>ns1\<close> changes any record held under \<open>ns2\<close>.
\<close>

theorem namespace_isolation:
  assumes "ns1 \<noteq> ns2"
  shows "(Memory_store_data s t ns1 k R = Inr s1 \<longrightarrow>
            map_sum id snd (Memory_retrieve_data s1 now ns2 k')
              = map_sum id snd (Memory_retrieve_data s now ns2 k')
          \<and> (float_of_int (ttl s) \<noteq> Inl OverflowError \<longrightarrow>
               (\<exists>sa sb res. Memory_retrieve_data s1 now ns2 k' = Inr (sa, res)
                           \<and> Memory_retrieve_data s now ns2 k' = Inr (sb, res)))
          \<and> (\<forall>k''. Memory_record s1 ns2 k'' = Memory_record s ns2 k''))
       \<and> (\<exists>s2. Memory_delete_data s ns1 k = Inr s2
             \<and> (\<forall>k''. Memory_record s2 ns2 k'' = Memory_record s ns2 k''))"
proof (intro conjI impI)
  assume st: "Memory_store_data s t ns1 k R = Inr s1"
  have same: "Memory_record s1 ns2 k'' = Memory_record s ns2 k''" for k''
    using assms by (simp add: store_record(1) [OF st])
  have ttl: "ttl s1 = ttl s" by (rule store_record(2) [OF st])
  show "map_sum id snd (Memory_retrieve_data s1 now ns2 k')
          = map_sum id snd (Memory_retrieve_data s now ns2 k')"
  proof (cases "Memory_retrieve_data s now ns2 k'")
    case (Inl e)
    from retrieve_error [OF Inl]
    obtain c where e: "e = OverflowError"
      and c: "Memory_record s ns2 k' = Some c" "response c = PyNone"
      and ov: "float_of_int (ttl s) = Inl OverflowError"
      by blast
    have "\<exists>e'. Memory_retrieve_data s1 now ns2 k' = Inl e'"
    proof (cases "Memory_retrieve_data s1 now ns2 k'")
      case (Inr p)
      obtain sa ra where p: "p = (sa, ra)" by (cases p)
      from retrieve_result(2) [OF Inr [unfolded p], of ns2 k']
      have "Memory_record sa ns2 k' = Some c"
        by (simp add: same c not_expired_overflow [OF ov [folded ttl]])
      moreover from retrieve_result(1) [OF Inr [unfolded p]]
      have "ra = (True, PyNone)"
        by (simp add: same c not_expired_overflow [OF ov [folded ttl]])
      ultimately have False
        using Inr p c ov ttl same
        by (auto simp add: Memory_retrieve_data_def defaultdict_getitem_def Memory_record_def
            response_and_mtime_def Let_def reservation_expired_overflow
            split: option.splits pyvalue.splits sum.splits bool.splits)
      then show ?thesis ..
    qed simp
    then obtain e' where e': "Memory_retrieve_data s1 now ns2 k' = Inl e'" by blast
    from retrieve_error(1) [OF e'] e Inl e' show ?thesis by simp
  next
    case (Inr p)
    obtain sb rb where p: "p = (sb, rb)" by (cases p)
    note b = Inr [unfolded p]
    have "\<exists>sa ra. Memory_retrieve_data s1 now ns2 k' = Inr (sa, ra)"
    proof (cases "Memory_retrieve_data s1 now ns2 k'")
      case (Inl e)
      from retrieve_error [OF Inl]
      obtain c where c: "Memory_record s1 ns2 k' = Some c" "response c = PyNone"
        and ov: "float_of_int (ttl s1) = Inl OverflowError"
        by blast
      from b c ov ttl same have False
        by (auto simp add: Memory_retrieve_data_def defaultdict_getitem_def Memory_record_def
            response_and_mtime_def Let_def reservation_expired_overflow
            split: option.splits pyvalue.splits sum.splits bool.splits)
      then show ?thesis ..
    next
      case (Inr q)
      then show ?thesis by (cases q) simp
    qed
    then obtain sa ra where a: "Memory_retrieve_data s1 now ns2 k' = Inr (sa, ra)" by blast
    have "ra = rb"
      by (simp add: retrieve_result(1) [OF a] retrieve_result(1) [OF b] same ttl
          split: option.splits)
    with a b show ?thesis by simp
  qed
  show "\<exists>sa sb res. Memory_retrieve_data s1 now ns2 k' = Inr (sa, res)
                        \<and> Memory_retrieve_data s now ns2 k' = Inr (sb, res)"
    if conv: "float_of_int (ttl s) \<noteq> Inl OverflowError"
  proof -
    obtain sa ra where a: "Memory_retrieve_data s1 now ns2 k' = Inr (sa, ra)"
      using retrieve_total [of s1 ns2 k' now] conv ttl by auto
    obtain sb rb where b: "Memory_retrieve_data s now ns2 k' = Inr (sb, rb)"
      using retrieve_total [of s ns2 k' now] conv by auto
    have "ra = rb"
      by (simp add: retrieve_result(1) [OF a] retrieve_result(1) [OF b] same ttl
          split: option.splits)
    with a b show ?thesis by blast
  qed
  from same show "\<forall>k''. Memory_record s1 ns2 k'' = Memory_record s ns2 k''" by blast
next
  obtain s2 where d: "Memory_delete_data s ns1 k = Inr s2"
    using delete_total by blast
  have "\<forall>k''. Memory_record s2 ns2 k'' = Memory_record s ns2 k''"
    using assms by (simp add: delete_record(1) [OF d])
  with d show "\<exists>s2. Memory_delete_data s ns1 k = Inr s2
             \<and> (\<forall>k''. Memory_record s2 ns2 k'' = Memory_record s ns2 k'')"
    by blast
qed

theorem namespace_isolation_witness:
  "''orders'' \<noteq> ''payments''
   \<and> Memory_store_data
         \<lparr>ttl = 5, idempotency_key_cache_data =
            [(''payments'', DictValue [(''key1'', \<lparr>response = PyNone, mtime = 0\<rparr>)])]\<rparr>
         0 ''orders'' ''key1'' PyNone
       = Inr \<lparr>ttl = 5, idempotency_key_cache_data =
               [(''payments'', DictValue [(''key1'', \<lparr>response = PyNone, mtime = 0\<rparr>)]),
                (''orders'', DictValue [(''key1'', \<lparr>response = PyNone, mtime = 0\<rparr>)])]\<rparr>
   \<and> float_of_int 5 \<noteq> Inl OverflowError
   \<and> (\<exists>sa sb res.
         Memory_retrieve_data \<lparr>ttl = 5, idempotency_key_cache_data =
               [(''payments'', DictValue [(''key1'', \<lparr>response = PyNone, mtime = 0\<rparr>)]),
                (''orders'', DictValue [(''key1'', \<lparr>response = PyNone, mtime = 0\<rparr>)])]\<rparr>
             1 ''payments'' ''key1'' = Inr (sa, res)
         \<and> Memory_retrieve_data
               \<lparr>ttl = 5, idempotency_key_cache_data =
                  [(''payments'', DictValue [(''key1'', \<lparr>response = PyNone, mtime = 0\<rparr>)])]\<rparr>
             1 ''payments'' ''key1'' = Inr (sb, res))
   \<and> (\<exists>s2. Memory_delete_data
               \<lparr>ttl = 5, idempotency_key_cache_data =
                  [(''payments'', DictValue [(''key1'', \<lparr>response = PyNone, mtime = 0\<rparr>)])]\<rparr>
               ''orders'' ''key1'' = Inr s2
         \<and> Memory_record s2 ''payments'' ''key1''
             = Memory_record
                 \<lparr>ttl = 5, idempotency_key_cache_data =
                    [(''payments'', DictValue [(''key1'', \<lparr>response = PyNone, mtime = 0\<rparr>)])]\<rparr>
                 ''payments'' ''key1'')"
proof -
  let ?s = "\<lparr>ttl = 5, idempotency_key_cache_data =
              [(''payments'', DictValue [(''key1'', \<lparr>response = PyNone, mtime = 0\<rparr>)])]\<rparr>"
  let ?s1 = "\<lparr>ttl = 5, idempotency_key_cache_data =
               [(''payments'', DictValue [(''key1'', \<lparr>response = PyNone, mtime = 0\<rparr>)]),
                (''orders'', DictValue [(''key1'', \<lparr>response = PyNone, mtime = 0\<rparr>)])]\<rparr>"
  have ne: "''orders'' \<noteq> ''payments''" by simp
  have st: "Memory_store_data ?s 0 ''orders'' ''key1'' PyNone = Inr ?s1"
    by (simp add: Memory_store_data_def defaultdict_getitem_def CachedHttpResponse_init_def)
  have "float_of_int 5 = Inr 5" by (rule float_of_int_5)
  then have conv: "float_of_int 5 \<noteq> Inl OverflowError" by simp
  have conv': "float_of_int (ttl ?s) \<noteq> Inl OverflowError" using conv by simp
  note t = namespace_isolation [OF ne, of ?s 0 "''key1''" PyNone ?s1 1 "''key1''"]
  from t st conv' have r1: "\<exists>sa sb res.
         Memory_retrieve_data ?s1 1 ''payments'' ''key1'' = Inr (sa, res)
         \<and> Memory_retrieve_data ?s 1 ''payments'' ''key1'' = Inr (sb, res)"
    by blast
  from t have r2: "\<exists>s2. Memory_delete_data ?s ''orders'' ''key1'' = Inr s2
         \<and> Memory_record s2 ''payments'' ''key1'' = Memory_record ?s ''payments'' ''key1''"
    by blast
  show ?thesis by (intro conjI ne st conv r1 r2)
qed

section \<open>Validation at startup\<close>

text \<open>
  C8. \<open>CacheKeyStorage.validate_storage\<close> raises exactly when the name is not among the
  configured caches, and the error is the handler's \<open>InvalidCacheBackendError\<close>;
  \<open>MemoryKeyStorage.validate_storage\<close> returns normally for every name.
\<close>

theorem validate_storage_fail_fast:
  "((\<exists>e. Cache_validate_storage cs name = Inl e) \<longleftrightarrow> name \<notin> fst ` set cs)
   \<and> (name \<notin> fst ` set cs \<longrightarrow> Cache_validate_storage cs name = Inl InvalidCacheBackendError)
   \<and> (name \<in> fst ` set cs \<longrightarrow> Cache_validate_storage cs name = Inr ())
   \<and> Memory_validate_storage name' = Inr ()"
proof (cases "map_of cs name")
  case None
  then have "name \<notin> fst ` set cs"
    by (simp add: map_of_eq_None_iff)
  moreover from None have "Cache_validate_storage cs name = Inl InvalidCacheBackendError"
    by (simp add: Cache_validate_storage_def caches_getitem_def)
  ultimately show ?thesis
    by (simp add: Memory_validate_storage_def)
next
  case (Some c)
  then have "map_of cs name \<noteq> None" by simp
  then have "name \<in> fst ` set cs"
    by (simp add: map_of_eq_None_iff)
  moreover from Some have "Cache_validate_storage cs name = Inr ()"
    by (simp add: Cache_validate_storage_def caches_getitem_def)
  ultimately show ?thesis
    by (simp add: Memory_validate_storage_def)
qed

theorem validate_storage_fail_fast_witness:
  "''missing'' \<notin> fst ` set [(''default'', []::table)]
   \<and> Cache_validate_storage [(''default'', [])] ''missing'' = Inl InvalidCacheBackendError
   \<and> ''default'' \<in> fst ` set [(''default'', []::table)]
   \<and> Cache_validate_storage [(''default'', [])] ''default'' = Inr ()
   \<and> Memory_validate_storage ''missing'' = Inr ()"
proof -
  have out: "''missing'' \<notin> fst ` set [(''default'', []::table)]" by simp
  have inn: "''default'' \<in> fst ` set [(''default'', []::table)]" by simp
  from validate_storage_fail_fast [of "[(''default'', [])]" "''missing''" "''missing''"] out
  have r1: "Cache_validate_storage [(''default'', [])] ''missing'' = Inl InvalidCacheBackendError"
    and r3: "Memory_validate_storage ''missing'' = Inr ()"
    by blast+
  from validate_storage_fail_fast [of "[(''default'', [])]" "''default''" "''missing''"] inn
  have r2: "Cache_validate_storage [(''default'', [])] ''default'' = Inr ()"
    by blast
  show ?thesis by (intro conjI out inn r1 r2 r3)
qed

section \<open>The default dictionary of the in-process store\<close>

text \<open>
  C10. In every state that the in-process store reaches from its constructor, looking a
  namespace up in the \<open>defaultdict\<close> never yields \<open>None\<close>, so the \<open>the_cache is None\<close>
  test of \<open>retrieve_data\<close> never succeeds. On a namespace that is not yet a key of the
  dictionary, \<open>retrieve_data\<close> and \<open>delete_data\<close> add an empty table for it to the
  state; \<open>retrieve_data\<close> still answers \<open>(False, None)\<close> and \<open>delete_data\<close> removes
  nothing.
\<close>

theorem defaultdict_lookup_never_none:
  "snd (defaultdict_getitem
          (idempotency_key_cache_data (Memory_run (MemoryKeyStorage_init T) calls)) ns)
     \<noteq> NoneValue
   \<and> (map_of (idempotency_key_cache_data s) ns' = None \<longrightarrow>
        Memory_retrieve_data s now ns' k
          = Inr (s\<lparr>idempotency_key_cache_data :=
                     idempotency_key_cache_data s @ [(ns', DictValue [])]\<rparr>, (False, PyNone))
      \<and> Memory_delete_data s ns' k
          = Inr (s\<lparr>idempotency_key_cache_data :=
                     idempotency_key_cache_data s @ [(ns', DictValue [])]\<rparr>))"
proof (intro conjI impI)
  let ?s = "Memory_run (MemoryKeyStorage_init T) calls"
  have "no_none_table ?s"
    by (simp add: no_none_table_run no_none_table_init)
  from no_none_table_lookup [OF this, of ns]
  show "snd (defaultdict_getitem (idempotency_key_cache_data ?s) ns) \<noteq> NoneValue"
    by (auto simp add: defaultdict_getitem_def split: option.splits)
next
  assume u: "map_of (idempotency_key_cache_data s) ns' = None"
  show "Memory_retrieve_data s now ns' k
          = Inr (s\<lparr>idempotency_key_cache_data :=
                     idempotency_key_cache_data s @ [(ns', DictValue [])]\<rparr>, (False, PyNone))"
    by (simp add: Memory_retrieve_data_def getitem_missing [OF u] AList_update_fresh [OF u])
next
  assume u: "map_of (idempotency_key_cache_data s) ns' = None"
  show "Memory_delete_data s ns' k
          = Inr (s\<lparr>idempotency_key_cache_data :=
                     idempotency_key_cache_data s @ [(ns', DictValue [])]\<rparr>)"
    by (simp add: Memory_delete_data_def getitem_missing [OF u] AList_update_fresh [OF u])
qed

theorem defaultdict_lookup_never_none_witness:
  "map_of (idempotency_key_cache_data (MemoryKeyStorage_init 5)) ''cache'' = None
   \<and> Memory_retrieve_data (MemoryKeyStorage_init 5) 3 ''cache'' ''key1''
       = Inr (\<lparr>ttl = 5, idempotency_key_cache_data = [(''cache'', DictValue [])]\<rparr>, (False, PyNone))
   \<and> Memory_delete_data (MemoryKeyStorage_init 5) ''cache'' ''key1''
       = Inr \<lparr>ttl = 5, idempotency_key_cache_data = [(''cache'', DictValue [])]\<rparr>
   \<and> snd (defaultdict_getitem
            (idempotency_key_cache_data
               (Memory_run (MemoryKeyStorage_init 5) [(0, Store ''cache'' ''key1'' PyNone)]))
            ''other'') \<noteq> NoneValue"
proof -
  have u: "map_of (idempotency_key_cache_data (MemoryKeyStorage_init 5)) ''cache'' = None"
    by (simp add: MemoryKeyStorage_init_def)
  note t = defaultdict_lookup_never_none [of 5 "[(0, Store ''cache'' ''key1'' PyNone)]" "''other''"
      "MemoryKeyStorage_init 5" "''cache''" 3 "''key1''"]
  from t u have r1: "Memory_retrieve_data (MemoryKeyStorage_init 5) 3 ''cache'' ''key1''
       = Inr (\<lparr>ttl = 5, idempotency_key_cache_data = [(''cache'', DictValue [])]\<rparr>, (False, PyNone))"
    by (simp add: MemoryKeyStorage_init_def)
  from t u have r2: "Memory_delete_data (MemoryKeyStorage_init 5) ''cache'' ''key1''
       = Inr \<lparr>ttl = 5, idempotency_key_cache_data = [(''cache'', DictValue [])]\<rparr>"
    by (simp add: MemoryKeyStorage_init_def)
  from t have r3: "snd (defaultdict_getitem
            (idempotency_key_cache_data
               (Memory_run (MemoryKeyStorage_init 5) [(0, Store ''cache'' ''key1'' PyNone)]))
            ''other'') \<noteq> NoneValue"
    by (rule conjunct1)
  show ?thesis by (intro conjI u r1 r2 r3)
qed

end
